theory Spec2Isabelle
  imports Main
begin

section \<open>Strings\<close>

text \<open>
  A JavaScript string is modelled as a \<open>string\<close>: one \<open>char\<close> per code unit, for the code
  units below 256. The white space of \<open>String.prototype.trim\<close> and of the regular
  expression class \<open>\s\<close> in that range is TAB, LF, VT, FF, CR, SPACE and NBSP.
\<close>

definition LF :: char where
  "LF = CHR 0x0A"

definition CR :: char where
  "CR = CHR 0x0D"

definition isSpace :: "char \<Rightarrow> bool" where
  "isSpace c = (c \<in> set [CHR 0x09, CHR 0x0A, CHR 0x0B, CHR 0x0C, CHR 0x0D, CHR 0x20, CHR 0xA0])"

definition isLineTerminator :: "char \<Rightarrow> bool" where
  "isLineTerminator c = (c = CHR 0x0A \<or> c = CHR 0x0D)"

definition isDigit :: "char \<Rightarrow> bool" where
  "isDigit c = (c \<in> set ''0123456789'')"

definition isAlpha :: "char \<Rightarrow> bool" where
  "isAlpha c = (c \<in> set ''abcdefghijklmnopqrstuvwxyzABCDEFGHIJKLMNOPQRSTUVWXYZ'')"

text \<open>\<open>s.trim()\<close>\<close>

definition trimStart :: "string \<Rightarrow> string" where
  "trimStart s = dropWhile isSpace s"

definition trimEnd :: "string \<Rightarrow> string" where
  "trimEnd s = rev (dropWhile isSpace (rev s))"

definition trim :: "string \<Rightarrow> string" where
  "trim s = trimEnd (trimStart s)"

text \<open>\<open>s.startsWith(p)\<close> and \<open>s.includes(p)\<close>\<close>

definition startsWith :: "string \<Rightarrow> string \<Rightarrow> bool" where
  "startsWith s p = (take (length p) s = p)"

fun includesStr :: "string \<Rightarrow> string \<Rightarrow> bool" where
  "includesStr [] p = (p = [])"
| "includesStr (c # cs) p = (startsWith (c # cs) p \<or> includesStr cs p)"

text \<open>
  \<open>s.toLowerCase()\<close> on the code units below 256: the capitals A-Z and the Latin-1
  capitals (U+00C0 to U+00DE without the multiplication sign), each with its small letter.
\<close>

definition upperChars :: string where
  "upperChars = ''ABCDEFGHIJKLMNOPQRSTUVWXYZ'' @
     [CHR 0xC0, CHR 0xC1, CHR 0xC2, CHR 0xC3, CHR 0xC4, CHR 0xC5, CHR 0xC6, CHR 0xC7, CHR
     0xC8, CHR 0xC9, CHR 0xCA, CHR 0xCB, CHR 0xCC, CHR 0xCD, CHR 0xCE, CHR 0xCF, CHR 0xD0,
     CHR 0xD1, CHR 0xD2, CHR 0xD3, CHR 0xD4, CHR 0xD5, CHR 0xD6, CHR 0xD8, CHR 0xD9, CHR
     0xDA, CHR 0xDB, CHR 0xDC, CHR 0xDD, CHR 0xDE]"

definition lowerChars :: string where
  "lowerChars = ''abcdefghijklmnopqrstuvwxyz'' @
     [CHR 0xE0, CHR 0xE1, CHR 0xE2, CHR 0xE3, CHR 0xE4, CHR 0xE5, CHR 0xE6, CHR 0xE7, CHR
     0xE8, CHR 0xE9, CHR 0xEA, CHR 0xEB, CHR 0xEC, CHR 0xED, CHR 0xEE, CHR 0xEF, CHR 0xF0,
     CHR 0xF1, CHR 0xF2, CHR 0xF3, CHR 0xF4, CHR 0xF5, CHR 0xF6, CHR 0xF8, CHR 0xF9, CHR
     0xFA, CHR 0xFB, CHR 0xFC, CHR 0xFD, CHR 0xFE]"

definition toLowerChar :: "char \<Rightarrow> char" where
  "toLowerChar c = (case map_of (zip upperChars lowerChars) c of None \<Rightarrow> c | Some l \<Rightarrow> l)"

definition toLowerCase :: "string \<Rightarrow> string" where
  "toLowerCase s = map toLowerChar s"

text \<open>\<open>content.split(/\r?\n/)\<close>: the first argument is the line read so far.\<close>

fun splitLinesFrom :: "string \<Rightarrow> string \<Rightarrow> string list" where
  "splitLinesFrom cur [] = [cur]"
| "splitLinesFrom cur [c] = (if c = LF then [cur, []] else [cur @ [c]])"
| "splitLinesFrom cur (c # d # cs) =
     (if c = LF then cur # splitLinesFrom [] (d # cs)
      else if c = CR \<and> d = LF then cur # splitLinesFrom [] cs
      else splitLinesFrom (cur @ [c]) (d # cs))"

definition splitLines :: "string \<Rightarrow> string list" where
  "splitLines s = splitLinesFrom [] s"

text \<open>\<open>parts.join(sep)\<close>\<close>

fun joinWith :: "string \<Rightarrow> string list \<Rightarrow> string" where
  "joinWith sep [] = []"
| "joinWith sep [x] = x"
| "joinWith sep (x # y # ys) = x @ sep @ joinWith sep (y # ys)"

text \<open>\<open>s.split(d)\<close> for a one-character separator\<close>

fun splitOn :: "char \<Rightarrow> string \<Rightarrow> string list" where
  "splitOn d [] = [[]]"
| "splitOn d (c # cs) =
     (if c = d then [] # splitOn d cs
      else (case splitOn d cs of x # xs \<Rightarrow> (c # x) # xs | [] \<Rightarrow> [[c]]))"

text \<open>Decimal numerals: \<open>String(n)\<close> and \<open>Number(s)\<close> on digit strings.\<close>

definition digitChar :: "nat \<Rightarrow> char" where
  "digitChar n = ''0123456789'' ! (n mod 10)"

definition digitVal :: "char \<Rightarrow> nat" where
  "digitVal c = of_char c - 48"

function showNat :: "nat \<Rightarrow> string" where
  "showNat n = (if n < 10 then [digitChar n] else showNat (n div 10) @ [digitChar (n mod 10)])"
  by pat_completeness auto
termination
  by (relation "measure id") auto

declare showNat.simps [simp del]

definition readNat :: "string \<Rightarrow> nat" where
  "readNat ds = foldl (\<lambda>a c. 10 * a + digitVal c) 0 ds"

text \<open>The comparison \<open>a < b\<close> of two strings: by code units, a proper prefix first.\<close>

fun strLess :: "string \<Rightarrow> string \<Rightarrow> bool" where
  "strLess [] [] = False"
| "strLess [] (y # ys) = True"
| "strLess (x # xs) [] = False"
| "strLess (x # xs) (y # ys) =
     ((of_char x :: nat) < of_char y \<or> (x = y \<and> strLess xs ys))"

section \<open>Semantic versions (the library \<open>semver-ts\<close>)\<close>

text \<open>
  Modelled from the spec: the functions \<open>valid\<close>, \<open>inc\<close>, \<open>gt\<close> and \<open>prerelease\<close> are
  imported from the package \<open>semver-ts\<close>, which is not part of the repository. The spec
  calls them validation as a semantic version, standard semantic-version increment and
  standard semantic-version ordering; they are written here after Semantic Versioning
  2.0.0 and the reference implementation's strict grammar
  \<open>v?N.N.N(-id(.id)*)?(+id(.id)*)?\<close>, read after trimming. The library's limits on
  the length of a version (256) and on the size of a number (2^53 - 1) are left out.
\<close>

datatype ident = Num nat | Alnum string

record semver =
  major :: nat
  minor :: nat
  patch :: nat
  prerelease :: "ident list"
  build :: "string list"

definition isIdChar :: "char \<Rightarrow> bool" where
  "isIdChar c = (isDigit c \<or> isAlpha c \<or> c = CHR ''-'')"

text \<open>\<open>0|[1-9]\d*\<close>\<close>

definition isNumericId :: "string \<Rightarrow> bool" where
  "isNumericId s = (s \<noteq> [] \<and> list_all isDigit s \<and> (length s = 1 \<or> hd s \<noteq> CHR ''0''))"

text \<open>\<open>0|[1-9]\d*|\d*[a-zA-Z-][a-zA-Z0-9-]*\<close>; a numeric identifier is read as a number.\<close>

definition parseIdent :: "string \<Rightarrow> ident option" where
  "parseIdent s =
     (if s = [] \<or> \<not> list_all isIdChar s then None
      else if list_all isDigit s then (if isNumericId s then Some (Num (readNat s)) else None)
      else Some (Alnum s))"

text \<open>\<open>[0-9A-Za-z-]+\<close>\<close>

definition isBuildId :: "string \<Rightarrow> bool" where
  "isBuildId s = (s \<noteq> [] \<and> list_all isIdChar s)"

definition parseCore :: "string \<Rightarrow> (nat \<times> nat \<times> nat) option" where
  "parseCore s =
     (case splitOn (CHR ''.'') s of
        [a, b, c] \<Rightarrow>
          if isNumericId a \<and> isNumericId b \<and> isNumericId c
          then Some (readNat a, readNat b, readNat c) else None
      | _ \<Rightarrow> None)"

definition parsePrerelease :: "string \<Rightarrow> ident list option" where
  "parsePrerelease s = those (map parseIdent (splitOn (CHR ''.'') s))"

definition parseBuild :: "string \<Rightarrow> string list option" where
  "parseBuild s =
     (let ids = splitOn (CHR ''.'') s in if list_all isBuildId ids then Some ids else None)"

definition isCoreChar :: "char \<Rightarrow> bool" where
  "isCoreChar c = (c \<noteq> CHR ''-'' \<and> c \<noteq> CHR ''+'')"

definition notPlus :: "char \<Rightarrow> bool" where
  "notPlus c = (c \<noteq> CHR ''+'')"

text \<open>The part after the core: \<open>(-prerelease)?(+build)?\<close>.\<close>

definition parseTail :: "string \<Rightarrow> (ident list \<times> string list) option" where
  "parseTail r =
     (case r of
        [] \<Rightarrow> Some ([], [])
      | c # cs \<Rightarrow>
          if c = CHR ''-'' then
            (case parsePrerelease (takeWhile notPlus cs) of
               None \<Rightarrow> None
             | Some pre \<Rightarrow>
                 (case dropWhile notPlus cs of
                    [] \<Rightarrow> Some (pre, [])
                  | p # bs \<Rightarrow>
                      (case parseBuild bs of None \<Rightarrow> None | Some b \<Rightarrow> Some (pre, b))))
          else
            (case parseBuild cs of None \<Rightarrow> None | Some b \<Rightarrow> Some ([], b)))"

definition stripV :: "string \<Rightarrow> string" where
  "stripV s = (case s of [] \<Rightarrow> [] | c # cs \<Rightarrow> if c = CHR ''v'' then cs else s)"

text \<open>\<open>new SemVer(version)\<close>; \<open>None\<close> is its \<open>TypeError\<close> for an invalid version.\<close>

definition parseSemver :: "string \<Rightarrow> semver option" where
  "parseSemver raw =
     (let s = stripV (trim raw) in
      case parseCore (takeWhile isCoreChar s) of
        None \<Rightarrow> None
      | Some (ma, mi, pa) \<Rightarrow>
          (case parseTail (dropWhile isCoreChar s) of
             None \<Rightarrow> None
           | Some (pre, b) \<Rightarrow>
               Some \<lparr>major = ma, minor = mi, patch = pa, prerelease = pre, build = b\<rparr>))"

fun showIdent :: "ident \<Rightarrow> string" where
  "showIdent (Num n) = showNat n"
| "showIdent (Alnum s) = s"

text \<open>\<open>SemVer.format()\<close>, the \<open>version\<close> property: the build metadata is not part of it.\<close>

definition format :: "semver \<Rightarrow> string" where
  "format v =
     showNat (major v) @ ''.'' @ showNat (minor v) @ ''.'' @ showNat (patch v) @
     (if prerelease v = [] then [] else ''-'' @ joinWith ''.'' (map showIdent (prerelease v)))"

text \<open>\<open>valid(version)\<close>\<close>

definition valid :: "string \<Rightarrow> string option" where
  "valid s = map_option format (parseSemver s)"

text \<open>\<open>prerelease(version)\<close>: the pre-release components, \<open>null\<close> when there are none.\<close>

definition prereleaseOf :: "string \<Rightarrow> ident list option" where
  "prereleaseOf s =
     (case parseSemver s of
        None \<Rightarrow> None
      | Some v \<Rightarrow> if prerelease v = [] then None else Some (prerelease v))"

subsection \<open>Ordering\<close>

datatype ordering = LT | EQ | GT

definition compareNat :: "nat \<Rightarrow> nat \<Rightarrow> ordering" where
  "compareNat a b = (if a < b then LT else if b < a then GT else EQ)"

fun compareIdentifiers :: "ident \<Rightarrow> ident \<Rightarrow> ordering" where
  "compareIdentifiers (Num a) (Num b) = compareNat a b"
| "compareIdentifiers (Num a) (Alnum t) = LT"
| "compareIdentifiers (Alnum s) (Num b) = GT"
| "compareIdentifiers (Alnum s) (Alnum t) = (if s = t then EQ else if strLess s t then LT else GT)"

fun comparePreLoop :: "ident list \<Rightarrow> ident list \<Rightarrow> ordering" where
  "comparePreLoop [] [] = EQ"
| "comparePreLoop (a # as) [] = GT"
| "comparePreLoop [] (b # bs) = LT"
| "comparePreLoop (a # as) (b # bs) =
     (if a = b then comparePreLoop as bs else compareIdentifiers a b)"

definition comparePre :: "semver \<Rightarrow> semver \<Rightarrow> ordering" where
  "comparePre a b =
     (if prerelease a \<noteq> [] \<and> prerelease b = [] then LT
      else if prerelease a = [] \<and> prerelease b \<noteq> [] then GT
      else if prerelease a = [] \<and> prerelease b = [] then EQ
      else comparePreLoop (prerelease a) (prerelease b))"

definition compareMain :: "semver \<Rightarrow> semver \<Rightarrow> ordering" where
  "compareMain a b =
     (case compareNat (major a) (major b) of
        EQ \<Rightarrow> (case compareNat (minor a) (minor b) of
                 EQ \<Rightarrow> compareNat (patch a) (patch b)
               | r \<Rightarrow> r)
      | r \<Rightarrow> r)"

definition compare :: "semver \<Rightarrow> semver \<Rightarrow> ordering" where
  "compare a b = (case compareMain a b of EQ \<Rightarrow> comparePre a b | r \<Rightarrow> r)"

text \<open>\<open>gt(a, b)\<close>; \<open>None\<close> when one of the two is not a version (the library throws).\<close>

definition gt :: "string \<Rightarrow> string \<Rightarrow> bool option" where
  "gt a b =
     (case parseSemver a of
        None \<Rightarrow> None
      | Some x \<Rightarrow> (case parseSemver b of None \<Rightarrow> None | Some y \<Rightarrow> Some (compare x y = GT)))"

subsection \<open>Increment\<close>

datatype releaseType = Major | Minor | Patch | Premajor | Preminor | Prepatch | Prerelease

text \<open>
  \<open>isNaN(id)\<close> for a pre-release identifier that is a string: \<open>Number(id)\<close> is a number
  for a decimal literal with an optional sign and exponent, for \<open>Infinity\<close>, and for a
  hexadecimal, octal or binary literal.
\<close>

definition isDigits :: "string \<Rightarrow> bool" where
  "isDigits s = (s \<noteq> [] \<and> list_all isDigit s)"

definition stripMinus :: "string \<Rightarrow> string" where
  "stripMinus s = (case s of [] \<Rightarrow> [] | c # cs \<Rightarrow> if c = CHR ''-'' then cs else s)"

definition isDecimalLiteral :: "string \<Rightarrow> bool" where
  "isDecimalLiteral s =
     (takeWhile isDigit s \<noteq> [] \<and>
      (case dropWhile isDigit s of
         [] \<Rightarrow> True
       | e # r \<Rightarrow> (e = CHR ''e'' \<or> e = CHR ''E'') \<and> isDigits (stripMinus r)))"

definition isRadixLiteral :: "string \<Rightarrow> bool" where
  "isRadixLiteral s =
     (case s of
        z # x # ds \<Rightarrow>
          z = CHR ''0'' \<and> ds \<noteq> [] \<and>
          (((x = CHR ''x'' \<or> x = CHR ''X'') \<and> list_all (\<lambda>c. c \<in> set ''0123456789abcdefABCDEF'') ds) \<or>
           ((x = CHR ''o'' \<or> x = CHR ''O'') \<and> list_all (\<lambda>c. c \<in> set ''01234567'') ds) \<or>
           ((x = CHR ''b'' \<or> x = CHR ''B'') \<and> list_all (\<lambda>c. c \<in> set ''01'') ds))
      | _ \<Rightarrow> False)"

definition isNaNString :: "string \<Rightarrow> bool" where
  "isNaNString s =
     (\<not> (s = [] \<or> stripMinus s = ''Infinity'' \<or> isDecimalLiteral (stripMinus s) \<or> isRadixLiteral s))"

fun isNaNIdent :: "ident option \<Rightarrow> bool" where
  "isNaNIdent None = True"
| "isNaNIdent (Some (Num n)) = False"
| "isNaNIdent (Some (Alnum s)) = isNaNString s"

text \<open>
  The loop of \<open>inc('pre')\<close> from the last identifier down: the first numeric one is
  incremented. The list is given reversed; \<open>None\<close> when none is numeric.
\<close>

fun incFirstNum :: "ident list \<Rightarrow> ident list option" where
  "incFirstNum [] = None"
| "incFirstNum (Num n # xs) = Some (Num (n + 1) # xs)"
| "incFirstNum (Alnum s # xs) = map_option ((#) (Alnum s)) (incFirstNum xs)"

definition bumpPre :: "ident list \<Rightarrow> ident list" where
  "bumpPre pre =
     (if pre = [] then [Num 0]
      else (case incFirstNum (rev pre) of Some r \<Rightarrow> rev r | None \<Rightarrow> pre @ [Num 0]))"

text \<open>\<open>if (identifier) { ... }\<close>: an absent or empty identifier changes nothing.\<close>

definition applyIdentifier :: "string option \<Rightarrow> ident list \<Rightarrow> ident list" where
  "applyIdentifier identifier pre =
     (case identifier of
        None \<Rightarrow> pre
      | Some i \<Rightarrow>
          if i = [] then pre
          else if pre \<noteq> [] \<and> hd pre = Alnum i then
            (if isNaNIdent (if 1 < length pre then Some (pre ! 1) else None)
             then [Alnum i, Num 0] else pre)
          else [Alnum i, Num 0])"

definition incPre :: "string option \<Rightarrow> semver \<Rightarrow> semver" where
  "incPre identifier v = v\<lparr>prerelease := applyIdentifier identifier (bumpPre (prerelease v))\<rparr>"

definition incPatch :: "semver \<Rightarrow> semver" where
  "incPatch v =
     v\<lparr>patch := (if prerelease v = [] then patch v + 1 else patch v), prerelease := []\<rparr>"

fun incRelease :: "releaseType \<Rightarrow> string option \<Rightarrow> semver \<Rightarrow> semver" where
  "incRelease Premajor identifier v =
     incPre identifier (v\<lparr>prerelease := [], patch := 0, minor := 0, major := major v + 1\<rparr>)"
| "incRelease Preminor identifier v =
     incPre identifier (v\<lparr>prerelease := [], patch := 0, minor := minor v + 1\<rparr>)"
| "incRelease Prepatch identifier v =
     incPre identifier (incPatch (v\<lparr>prerelease := []\<rparr>))"
| "incRelease Prerelease identifier v =
     incPre identifier (if prerelease v = [] then incPatch v else v)"
| "incRelease Major identifier v =
     v\<lparr>major := (if minor v \<noteq> 0 \<or> patch v \<noteq> 0 \<or> prerelease v = [] then major v + 1 else major v),
       minor := 0, patch := 0, prerelease := []\<rparr>"
| "incRelease Minor identifier v =
     v\<lparr>minor := (if patch v \<noteq> 0 \<or> prerelease v = [] then minor v + 1 else minor v),
       patch := 0, prerelease := []\<rparr>"
| "incRelease Patch identifier v = incPatch v"

text \<open>\<open>inc(version, release, {}, identifier)\<close>: \<open>null\<close> for an invalid version.\<close>

definition inc :: "string \<Rightarrow> releaseType \<Rightarrow> string option \<Rightarrow> string option" where
  "inc version release identifier =
     map_option (\<lambda>v. format (incRelease release identifier v)) (parseSemver version)"

section \<open>The changelog parser (\<open>tools/release-utils.ts\<close>)\<close>

record ChangelogEntry =
  version :: "string option"
  header :: string
  content :: string

record ParsedChangelog =
  title :: string
  description :: string
  entries :: "ChangelogEntry list"
  warnings :: "string list"

definition unreleased :: string where
  "unreleased = ''unreleased''"

text \<open>\<open>e.version === "unreleased"\<close>\<close>

definition isUnreleased :: "ChangelogEntry \<Rightarrow> bool" where
  "isUnreleased e = (version e = Some unreleased)"

text \<open>
  \<open>line.match(/^##(?!#)\s*(.*)/)\<close>: the capture group when the line matches. \<open>\s*\<close>
  takes all the white space after the two marks and \<open>(.*)\<close> everything up to a line
  terminator; nothing follows the group, so the first attempt succeeds.
\<close>

definition headingMatch :: "string \<Rightarrow> string option" where
  "headingMatch line =
     (if startsWith line ''##'' \<and> \<not> startsWith (drop 2 line) ''#''
      then Some (takeWhile (\<lambda>c. \<not> isLineTerminator c) (dropWhile isSpace (drop 2 line)))
      else None)"

text \<open>\<open>(?:[-+._][0-9A-Za-z.-]+)?\<close> at the start of \<open>r\<close>: the text it takes.\<close>

definition isSuffixChar :: "char \<Rightarrow> bool" where
  "isSuffixChar c = (isDigit c \<or> isAlpha c \<or> c = CHR ''.'' \<or> c = CHR ''-'')"

definition versionSuffix :: "string \<Rightarrow> string" where
  "versionSuffix r =
     (case r of
        [] \<Rightarrow> []
      | d # t \<Rightarrow>
          if d \<in> set ''-+._'' \<and> takeWhile isSuffixChar t \<noteq> []
          then d # takeWhile isSuffixChar t else [])"

text \<open>
  \<open>([0-9]+\.[0-9]+\.[0-9]+(?:[-+._][0-9A-Za-z.-]+)?)\<close> at the start of \<open>s\<close>: the text of
  the group. A run of digits is taken whole: after a shorter run comes a digit, where
  the pattern wants a dot. What follows the group, \<open>\s*(?:\)|\])?\<close>, matches any text.
\<close>

definition digitsDot :: "string \<Rightarrow> (string \<times> string) option" where
  "digitsDot s =
     (if takeWhile isDigit s = [] then None
      else (case dropWhile isDigit s of
              [] \<Rightarrow> None
            | d # r \<Rightarrow> if d = CHR ''.'' then Some (takeWhile isDigit s, r) else None))"

definition versionCore :: "string \<Rightarrow> string option" where
  "versionCore s =
     (case digitsDot s of
        None \<Rightarrow> None
      | Some (a, r1) \<Rightarrow>
          (case digitsDot r1 of
             None \<Rightarrow> None
           | Some (b, r2) \<Rightarrow>
               if takeWhile isDigit r2 = [] then None
               else Some (a @ ''.'' @ b @ ''.'' @ takeWhile isDigit r2 @
                          versionSuffix (dropWhile isDigit r2))))"

text \<open>
  The version pattern tried at the start of \<open>s\<close>:
  \<open>(?:\(|\[)?\s*v?\<close> and then the group. The group starts with a digit, so the bracket
  and the \<open>v\<close> are taken when they are there and the white space is taken whole: no
  other choice lets the group start.
\<close>

definition skipBracket :: "string \<Rightarrow> string" where
  "skipBracket s =
     (case s of [] \<Rightarrow> [] | c # cs \<Rightarrow> if c = CHR ''('' \<or> c = CHR ''['' then cs else s)"

definition matchVersionHere :: "string \<Rightarrow> string option" where
  "matchVersionHere s = versionCore (stripV (dropWhile isSpace (skipBracket s)))"

text \<open>\<open>headerText.match(/.../)\<close>: the group of the leftmost match.\<close>

fun versionMatch :: "string \<Rightarrow> string option" where
  "versionMatch [] = None"
| "versionMatch (c # cs) =
     (case matchVersionHere (c # cs) of Some t \<Rightarrow> Some t | None \<Rightarrow> versionMatch cs)"

definition invalidHeaderWarning :: "string \<Rightarrow> string" where
  "invalidHeaderWarning h =
     ''CHANGELOG.md: Header \"'' @ h @ ''\" does not contain a valid SemVer identifier.''"

definition missingUnreleasedWarning :: string where
  "missingUnreleasedWarning =
     ''CHANGELOG.md: Missing [Unreleased] section; creating an empty placeholder.''"

definition emptyUnreleasedWarning :: string where
  "emptyUnreleasedWarning = ''CHANGELOG.md: Unreleased section is empty.''"

text \<open>The version of a heading and the warnings it adds (lines 93 to 109).\<close>

definition classifyHeader :: "string \<Rightarrow> string \<Rightarrow> string option \<times> string list" where
  "classifyHeader h headerText =
     (case versionMatch headerText of
        Some tok \<Rightarrow>
          (case valid (trim tok) of
             Some sv \<Rightarrow> (Some sv, [])
           | None \<Rightarrow> (None, [invalidHeaderWarning h]))
      | None \<Rightarrow>
          if includesStr (toLowerCase headerText) unreleased then (Some unreleased, [])
          else (None, []))"

record ParserState =
  st_description :: string
  st_entries :: "ChangelogEntry list"
  st_warnings :: "string list"
  currentEntry :: "ChangelogEntry option"
  firstHeaderFound :: bool

text \<open>\<open>entries.push({ ...currentEntry, content: currentEntry.content.trim() })\<close>\<close>

definition flushEntry :: "ParserState \<Rightarrow> ChangelogEntry list" where
  "flushEntry st =
     (case currentEntry st of
        None \<Rightarrow> st_entries st
      | Some ce \<Rightarrow> st_entries st @ [ce\<lparr>content := trim (content ce)\<rparr>])"

text \<open>The body of the loop over the lines.\<close>

definition parseLine :: "ParserState \<Rightarrow> string \<Rightarrow> ParserState" where
  "parseLine st line =
     (case headingMatch line of
        Some g \<Rightarrow>
          (let h = trim line;
               (v, ws) = classifyHeader h (trim g)
           in st\<lparr>firstHeaderFound := True,
                 st_entries := flushEntry st,
                 st_warnings := st_warnings st @ ws,
                 currentEntry := Some \<lparr>version = v, header = h, content = []\<rparr>\<rparr>)
      | None \<Rightarrow>
          (case currentEntry st of
             Some ce \<Rightarrow> st\<lparr>currentEntry := Some (ce\<lparr>content := content ce @ line @ [LF]\<rparr>)\<rparr>
           | None \<Rightarrow>
               if \<not> firstHeaderFound st \<and> \<not> startsWith line ''# ''
               then st\<lparr>st_description := st_description st @ line @ [LF]\<rparr>
               else st))"

definition initialState :: ParserState where
  "initialState =
     \<lparr>st_description = [], st_entries = [], st_warnings = [], currentEntry = None,
      firstHeaderFound = False\<rparr>"

definition unreleasedPlaceholder :: "string \<Rightarrow> ChangelogEntry" where
  "unreleasedPlaceholder c = \<lparr>version = Some unreleased, header = ''## [Unreleased]'', content = c\<rparr>"

text \<open>\<open>lines.find((line) => line.startsWith("# "))?.trim() || "Changelog"\<close>\<close>

definition findTitle :: "string list \<Rightarrow> string" where
  "findTitle ls =
     (case find (\<lambda>l. startsWith l ''# '') ls of
        None \<Rightarrow> ''Changelog''
      | Some l \<Rightarrow> if trim l = [] then ''Changelog'' else trim l)"

text \<open>Lines 123 to 134: content before the first heading becomes the unreleased entry.\<close>

definition promoteDescription :: "string \<times> ChangelogEntry list \<Rightarrow> string \<times> ChangelogEntry list" where
  "promoteDescription de =
     (case de of (d, es) \<Rightarrow>
        if trim d \<noteq> [] \<and> \<not> list_ex isUnreleased es
        then ([], unreleasedPlaceholder (trim d) # es) else (d, es))"

text \<open>Lines 135 to 142: a missing unreleased entry is created, with a warning.\<close>

definition recoverUnreleased :: "ChangelogEntry list \<times> string list \<Rightarrow> ChangelogEntry list \<times> string list" where
  "recoverUnreleased ew =
     (case ew of (es, ws) \<Rightarrow>
        if \<not> list_ex isUnreleased es
        then (unreleasedPlaceholder [] # es, ws @ [missingUnreleasedWarning]) else (es, ws))"

text \<open>Lines 144 to 147.\<close>

definition warnEmptyUnreleased :: "ChangelogEntry list \<Rightarrow> string list \<Rightarrow> string list" where
  "warnEmptyUnreleased es ws =
     (case find isUnreleased es of
        None \<Rightarrow> ws
      | Some u \<Rightarrow> if length (trim (content u)) = 0 then ws @ [emptyUnreleasedWarning] else ws)"

text \<open>The parser on the text of the file.\<close>

definition parseText :: "string \<Rightarrow> ParsedChangelog" where
  "parseText text =
     (let ls = splitLines text;
          st = foldl parseLine initialState ls;
          (d, es1) = promoteDescription (st_description st, flushEntry st);
          (es2, ws2) = recoverUnreleased (es1, st_warnings st)
      in \<lparr>title = findTitle ls, description = trim d, entries = es2,
          warnings = warnEmptyUnreleased es2 ws2\<rparr>)"

text \<open>
  The ways a run ends with exit code 1. \<open>Thrown\<close> is an exception, which
  \<open>main().catch\<close> reports with its message; the others are the calls of \<open>exitError\<close>.
\<close>

datatype error =
    Thrown string
  | MissingVersionArgument
  | StrictModeAborted
  | StrictUnreleasedMissing
  | StrictUnreleasedEmpty
  | PrereleaseOnDefaultBranch
  | InvalidVersion string
  | ChangelogVersionConflict "string list"
  | NonInteractiveWithoutConsent
  | ChecksFailed
  | GitCommitFailed
  | GitTagFailed
  | GitPushFailed
  | GitPushTagsFailed

text \<open>
  \<open>parseChangelog()\<close>: the file as read from the disk, \<open>None\<close> when it cannot be read (the
  promise of \<open>readFile\<close> is rejected).
\<close>

definition parseChangelog :: "string option \<Rightarrow> error + ParsedChangelog" where
  "parseChangelog file =
     (case file of
        None \<Rightarrow> Inl (Thrown ''ENOENT: no such file or directory, open CHANGELOG.md'')
      | Some text \<Rightarrow> Inr (parseText text))"

section \<open>The changelog writer (\<open>updateChangelog\<close>)\<close>

definition renderEntry :: "ChangelogEntry \<Rightarrow> string" where
  "renderEntry e = header e @ [LF, LF] @ content e @ [LF, LF]"

definition releaseHeader :: "string \<Rightarrow> string \<Rightarrow> string" where
  "releaseHeader nextVersion today = ''## ['' @ nextVersion @ ''] - '' @ today"

definition otherEntries :: "ParsedChangelog \<Rightarrow> ChangelogEntry list" where
  "otherEntries parsed = filter (\<lambda>e. \<not> isUnreleased e) (entries parsed)"

definition newContent :: "ParsedChangelog \<Rightarrow> ChangelogEntry \<Rightarrow> string" where
  "newContent parsed newEntry =
     title parsed @ [LF, LF] @
     (if description parsed \<noteq> [] then description parsed @ [LF, LF] else []) @
     ''## [Unreleased]'' @ [LF, LF] @
     concat (map renderEntry (newEntry # otherEntries parsed))"

text \<open>
  \<open>updateChangelog(parsed, nextVersion)\<close>, with the date of the day (\<open>YYYY-MM-DD\<close>) as
  an argument. The result is the text written to \<open>CHANGELOG.md\<close> and the value returned.
\<close>

definition updateChangelog :: "ParsedChangelog \<Rightarrow> string \<Rightarrow> string \<Rightarrow> error + (string \<times> string)" where
  "updateChangelog parsed nextVersion today =
     (case find isUnreleased (entries parsed) of
        None \<Rightarrow> Inl (Thrown ''No unreleased changes found in CHANGELOG.md.'')
      | Some u \<Rightarrow>
          if content u = [] then Inl (Thrown ''No unreleased changes found in CHANGELOG.md.'')
          else
            (let newEntry = \<lparr>version = Some nextVersion,
                              header = releaseHeader nextVersion today,
                              content = content u\<rparr>
             in Inr (trim (newContent parsed newEntry) @ [LF], content newEntry)))"

section \<open>The release script (\<open>main\<close>)\<close>

text \<open>
  What a run reads from outside: the three JSON documents (their fields, \<open>None\<close> for an
  absent one; \<open>project_read_error\<close> is the message of a failed read or \<open>JSON.parse\<close>), the
  changelog, the date, the branch names (the two environment variables, and what the two
  git queries give, \<open>None\<close> when the query fails or its output has no branch), the
  terminal, the answer to the prompt and the success of the external commands.
\<close>

record World =
  project_read_error :: "string option"
  manifest_version :: "string option"
  manifest_id :: "string option"
  manifest_minAppVersion :: "string option"
  package_version :: "string option"
  versions_json :: "string \<rightharpoonup> string"
  changelog_md :: "string option"
  today :: string
  TEST_CURRENT_BRANCH :: "string option"
  TEST_DEFAULT_BRANCH :: "string option"
  gitCurrentBranch :: "string option"
  gitDefaultBranch :: "string option"
  stdinIsTTY :: bool
  promptValue :: bool
  checkOk :: bool
  commitOk :: bool
  tagOk :: bool
  pushOk :: bool
  pushTagsOk :: bool

record Args =
  help_flag :: bool
  version_flag :: bool
  noPush :: bool
  yes :: bool
  quiet :: bool
  strict :: bool
  preid :: "string option"
  positionals :: "string list"

record ProjectInfo =
  info_id :: string
  info_version :: string
  minAppVersion :: string
  pkgVersion :: string
  versions :: "string \<rightharpoonup> string"

text \<open>
  What a run does outside: a line on one of the two streams (without the coloured mark
  and the indentation the logger puts before it), the usage text, a version written
  to \<open>manifest.json\<close> or \<open>package.json\<close>, an entry added to \<open>versions.json\<close>, the new
  text of \<open>CHANGELOG.md\<close>, an external command.
\<close>

datatype stream = StdOut | StdErr

datatype event =
    Print stream string
  | ShowHelp
  | WriteVersion string string
  | AddVersionsEntry string string
  | WriteChangelog string
  | Exec string

type_synonym 'a step = "event list \<times> (error + 'a)"

definition errorMessage :: "error \<Rightarrow> string" where
  "errorMessage e =
     (case e of
        Thrown m \<Rightarrow> m
      | MissingVersionArgument \<Rightarrow> ''Missing version argument.''
      | StrictModeAborted \<Rightarrow> ''Strict mode: aborting due to changelog warnings.''
      | StrictUnreleasedMissing \<Rightarrow> ''CHANGELOG.md: Unable to locate or create [Unreleased] section.''
      | StrictUnreleasedEmpty \<Rightarrow>
          ''CHANGELOG.md: [Unreleased] section is empty; using placeholder entry for release notes.''
      | PrereleaseOnDefaultBranch \<Rightarrow> ''Pre-releases must be created from a non-default branch.''
      | InvalidVersion a \<Rightarrow> ''Invalid version: '' @ a
      | ChangelogVersionConflict vs \<Rightarrow>
          ''Changelog contains versions higher than the target version: '' @ joinWith '', '' vs
      | NonInteractiveWithoutConsent \<Rightarrow>
          ''Running in non-interactive mode without --yes flag. Use --yes to auto-confirm.''
      | ChecksFailed \<Rightarrow> ''Checks failed. Please fix issues before releasing.''
      | GitCommitFailed \<Rightarrow> ''Git commit failed. Please check git status.''
      | GitTagFailed \<Rightarrow> ''Git tag creation failed.''
      | GitPushFailed \<Rightarrow> ''Git push failed.''
      | GitPushTagsFailed \<Rightarrow> ''Git push tags failed.'')"

text \<open>A value that JavaScript takes as true: a string that is there and not empty.\<close>

definition truthy :: "string option \<Rightarrow> bool" where
  "truthy x = (case x of None \<Rightarrow> False | Some s \<Rightarrow> s \<noteq> [])"

definition orEmpty :: "string option \<Rightarrow> string" where
  "orEmpty x = (case x of None \<Rightarrow> [] | Some s \<Rightarrow> s)"

text \<open>\<open>log.success\<close>, \<open>log.step\<close>, \<open>log.info\<close>: silent in quiet mode. \<open>log.warn\<close>: never silent.\<close>

definition logQuiet :: "bool \<Rightarrow> string \<Rightarrow> event list" where
  "logQuiet isQuiet msg = (if isQuiet then [] else [Print StdOut msg])"

definition logWarn :: "string \<Rightarrow> event list" where
  "logWarn msg = [Print StdOut msg]"

definition getProjectInfo :: "World \<Rightarrow> error + ProjectInfo" where
  "getProjectInfo w =
     (case project_read_error w of
        Some m \<Rightarrow> Inl (Thrown m)
      | None \<Rightarrow>
          if \<not> truthy (manifest_version w) then Inl (Thrown ''No version found in manifest.json'')
          else if \<not> truthy (manifest_id w) then Inl (Thrown ''No id found in manifest.json'')
          else if \<not> truthy (manifest_minAppVersion w)
            then Inl (Thrown ''No minAppVersion found in manifest.json'')
          else if \<not> truthy (package_version w) then Inl (Thrown ''No version found in package.json'')
          else Inr \<lparr>info_id = orEmpty (manifest_id w),
                     info_version = orEmpty (manifest_version w),
                     minAppVersion = orEmpty (manifest_minAppVersion w),
                     pkgVersion = orEmpty (package_version w),
                     versions = versions_json w\<rparr>)"

definition checkVersionCoherency :: "ProjectInfo \<Rightarrow> error + unit" where
  "checkVersionCoherency info =
     (if info_version info \<noteq> pkgVersion info then
        Inl (Thrown (''Version mismatch: manifest.json has '' @ info_version info @
                     '', but package.json has '' @ pkgVersion info @ ''.''))
      else if \<not> truthy (versions info (info_version info)) then
        Inl (Thrown (''Version '' @ info_version info @ '' not found in versions.json.''))
      else Inr ())"

definition getCurrentBranch :: "World \<Rightarrow> string option" where
  "getCurrentBranch w =
     (if truthy (TEST_CURRENT_BRANCH w) then TEST_CURRENT_BRANCH w else gitCurrentBranch w)"

definition getDefaultBranch :: "World \<Rightarrow> string option" where
  "getDefaultBranch w =
     (if truthy (TEST_DEFAULT_BRANCH w) then TEST_DEFAULT_BRANCH w else gitDefaultBranch w)"

text \<open>Lines 234 to 238.\<close>

definition verifyStage :: "bool \<Rightarrow> World \<Rightarrow> ProjectInfo step" where
  "verifyStage isQuiet w =
     (case getProjectInfo w of
        Inl e \<Rightarrow> (logQuiet isQuiet ''Verifying project state...'', Inl e)
      | Inr info \<Rightarrow>
          (case checkVersionCoherency info of
             Inl e \<Rightarrow> (logQuiet isQuiet ''Verifying project state...'', Inl e)
           | Inr u \<Rightarrow>
               (logQuiet isQuiet ''Verifying project state...'' @
                logQuiet isQuiet ''Project state is coherent.'', Inr info)))"

text \<open>Lines 240 to 248.\<close>

definition parseStage :: "bool \<Rightarrow> World \<Rightarrow> ParsedChangelog step" where
  "parseStage strictMode w =
     (case parseChangelog (changelog_md w) of
        Inl e \<Rightarrow> ([], Inl e)
      | Inr parsed \<Rightarrow>
          (concat (map logWarn (warnings parsed)),
           if warnings parsed \<noteq> [] \<and> strictMode then Inl StrictModeAborted else Inr parsed))"

text \<open>
  Lines 250 to 273. \<open>unreleasedEntry\<close> is the first unreleased entry of the list itself,
  so the placeholder text is written into the list.
\<close>

fun updateFirst :: "('a \<Rightarrow> bool) \<Rightarrow> ('a \<Rightarrow> 'a) \<Rightarrow> 'a list \<Rightarrow> 'a list" where
  "updateFirst P f [] = []"
| "updateFirst P f (x # xs) = (if P x then f x # xs else x # updateFirst P f xs)"

definition noChangesRecorded :: string where
  "noChangesRecorded = ''- _No changes recorded._''"

definition fillPlaceholder ::
  "bool \<Rightarrow> event list \<Rightarrow> ChangelogEntry \<Rightarrow> ParsedChangelog \<Rightarrow> ParsedChangelog step" where
  "fillPlaceholder strictMode evs unreleasedEntry parsed =
     (if length (trim (content unreleasedEntry)) = 0 then
        (if strictMode then (evs, Inl StrictUnreleasedEmpty)
         else (evs @ logWarn (errorMessage StrictUnreleasedEmpty),
               Inr (parsed\<lparr>entries :=
                      updateFirst isUnreleased (\<lambda>e. e\<lparr>content := noChangesRecorded\<rparr>)
                        (entries parsed)\<rparr>)))
      else (evs, Inr parsed))"

definition ensureReleasable :: "bool \<Rightarrow> ParsedChangelog \<Rightarrow> ParsedChangelog step" where
  "ensureReleasable strictMode parsed =
     (case find isUnreleased (entries parsed) of
        None \<Rightarrow>
          if strictMode then ([], Inl StrictUnreleasedMissing)
          else fillPlaceholder strictMode (logWarn (errorMessage StrictUnreleasedMissing))
                 (unreleasedPlaceholder [])
                 (parsed\<lparr>entries := unreleasedPlaceholder [] # entries parsed\<rparr>)
      | Some u \<Rightarrow> fillPlaceholder strictMode [] u parsed)"

text \<open>\<open>releaseTypes.includes(versionArg)\<close>\<close>

definition releaseTypeOf :: "string \<Rightarrow> releaseType option" where
  "releaseTypeOf a =
     (if a = ''major'' then Some Major
      else if a = ''minor'' then Some Minor
      else if a = ''patch'' then Some Patch
      else if a = ''premajor'' then Some Premajor
      else if a = ''preminor'' then Some Preminor
      else if a = ''prepatch'' then Some Prepatch
      else if a = ''prerelease'' then Some Prerelease
      else None)"

text \<open>\<open>releaseType.startsWith("pre")\<close>\<close>

fun startsWithPre :: "releaseType \<Rightarrow> bool" where
  "startsWithPre Premajor = True"
| "startsWithPre Preminor = True"
| "startsWithPre Prepatch = True"
| "startsWithPre Prerelease = True"
| "startsWithPre r = False"

definition isPreRelease :: "releaseType \<Rightarrow> string \<Rightarrow> bool" where
  "isPreRelease releaseType current = (startsWithPre releaseType \<or> prereleaseOf current \<noteq> None)"

text \<open>\<open>defaultBranch && currentBranch && currentBranch === defaultBranch\<close>\<close>

definition onDefaultBranch :: "World \<Rightarrow> bool" where
  "onDefaultBranch w =
     (truthy (getDefaultBranch w) \<and> truthy (getCurrentBranch w) \<and>
      getCurrentBranch w = getDefaultBranch w)"

text \<open>\<open>nextVersion.replace(/\.(?=\d+$)/, "")\<close>: the first dot that only digits follow.\<close>

fun removeDot :: "string \<Rightarrow> string" where
  "removeDot [] = []"
| "removeDot (c # cs) = (if c = CHR ''.'' \<and> isDigits cs then cs else c # removeDot cs)"

text \<open>Lines 315 to 318.\<close>

definition bratNormalize :: "string \<Rightarrow> string" where
  "bratNormalize nextVersion =
     (if prereleaseOf nextVersion \<noteq> None then removeDot nextVersion else nextVersion)"

text \<open>Lines 311 to 318.\<close>

definition acceptVersion :: "string \<Rightarrow> string option \<Rightarrow> error + string" where
  "acceptVersion versionArg nextVersion =
     (if \<not> truthy nextVersion then Inl (InvalidVersion versionArg)
      else Inr (bratNormalize (orEmpty nextVersion)))"

text \<open>Lines 275 to 318: the next version.\<close>

definition resolveVersion :: "string \<Rightarrow> string \<Rightarrow> string option \<Rightarrow> World \<Rightarrow> error + string" where
  "resolveVersion current versionArg identifier w =
     (case releaseTypeOf versionArg of
        Some releaseType \<Rightarrow>
          if isPreRelease releaseType current \<and> onDefaultBranch w
          then Inl PrereleaseOnDefaultBranch
          else acceptVersion versionArg (inc current releaseType identifier)
      | None \<Rightarrow> acceptVersion versionArg (valid versionArg))"

text \<open>
  Lines 322 to 325: the filter. \<open>gt\<close> throws \<open>TypeError\<close> on a string that is not a
  version, and the exception ends the filter.
\<close>

definition invalidVersionError :: "string \<Rightarrow> string \<Rightarrow> error" where
  "invalidVersionError a b =
     Thrown (''Invalid Version: '' @ (if parseSemver a = None then a else b))"

fun higherVersions :: "ChangelogEntry list \<Rightarrow> string \<Rightarrow> error + ChangelogEntry list" where
  "higherVersions [] nextVersion = Inr []"
| "higherVersions (e # es) nextVersion =
     (if \<not> truthy (version e) \<or> version e = Some unreleased then higherVersions es nextVersion
      else (case gt (orEmpty (version e)) nextVersion of
              None \<Rightarrow> Inl (invalidVersionError (orEmpty (version e)) nextVersion)
            | Some b \<Rightarrow>
                (case higherVersions es nextVersion of
                   Inl err \<Rightarrow> Inl err
                 | Inr hs \<Rightarrow> Inr (if b then e # hs else hs))))"

text \<open>Lines 322 to 332.\<close>

definition checkHigherVersions :: "ChangelogEntry list \<Rightarrow> string \<Rightarrow> error + unit" where
  "checkHigherVersions es nextVersion =
     (case higherVersions es nextVersion of
        Inl err \<Rightarrow> Inl err
      | Inr hs \<Rightarrow>
          if length hs > 0
          then Inl (ChangelogVersionConflict (map (\<lambda>e. orEmpty (version e)) hs))
          else Inr ())"

text \<open>One stage after another: an error ends the run, the events add up.\<close>

definition andThen :: "'a step \<Rightarrow> ('a \<Rightarrow> 'b step) \<Rightarrow> 'b step" where
  "andThen m f =
     (case m of
        (evs, Inl e) \<Rightarrow> (evs, Inl e)
      | (evs, Inr a) \<Rightarrow> (case f a of (evs', r) \<Rightarrow> (evs @ evs', r)))"

text \<open>Lines 358 to 392: the three JSON documents and the changelog are written.\<close>

definition mutateStage :: "bool \<Rightarrow> World \<Rightarrow> ProjectInfo \<Rightarrow> ParsedChangelog \<Rightarrow> string \<Rightarrow> string step" where
  "mutateStage isQuiet w info parsed nextVersion =
     (let evs =
        logQuiet isQuiet ''Updating manifest.json...'' @
        [WriteVersion ''manifest.json'' nextVersion] @
        logQuiet isQuiet (''Updated manifest.json to '' @ nextVersion) @
        logQuiet isQuiet ''Updating package.json...'' @
        [WriteVersion ''package.json'' nextVersion] @
        logQuiet isQuiet (''Updated package.json to '' @ nextVersion) @
        logQuiet isQuiet ''Updating versions.json...'' @
        (if \<not> truthy (versions_json w nextVersion)
         then [AddVersionsEntry nextVersion (minAppVersion info)] @
              logQuiet isQuiet (''Added '' @ nextVersion @ '' to versions.json'')
         else logWarn (''Version '' @ nextVersion @ '' already exists in versions.json'')) @
        logQuiet isQuiet ''Updating CHANGELOG.md...''
      in case updateChangelog parsed nextVersion (today w) of
           Inl e \<Rightarrow> (evs, Inl e)
         | Inr (newText, changelog) \<Rightarrow>
             (evs @ [WriteChangelog newText] @ logQuiet isQuiet ''Updated CHANGELOG.md'',
              Inr changelog))"

text \<open>\<open>run(cmd)\<close>: the command, and the line on the error stream when it fails.\<close>

definition runCommand :: "string \<Rightarrow> bool \<Rightarrow> event list" where
  "runCommand cmd ok = Exec cmd # (if ok then [] else [Print StdErr (''Command failed: '' @ cmd)])"

text \<open>Lines 394 to 444: the checks, the commit, the tag and the push.\<close>

definition publishStage :: "Args \<Rightarrow> World \<Rightarrow> string \<Rightarrow> string \<Rightarrow> unit step" where
  "publishStage args w nextVersionTag changelog =
     (let q = quiet args;
          e1 = logQuiet q ''Running checks...'' @ runCommand ''npm run check'' (checkOk w);
          commitCmd = ''git commit -am \"chore: release '' @ nextVersionTag @ [LF, LF] @ changelog @ ''\"'';
          e2 = e1 @ logQuiet q ''All checks passed!'' @
               logQuiet q ''Creating release commit and tag...'' @ runCommand commitCmd (commitOk w);
          tagCmd = ''git tag -a '' @ nextVersionTag @ '' -m \"'' @ changelog @ ''\"'';
          e3 = e2 @ logQuiet q ''Changes committed'' @ runCommand tagCmd (tagOk w);
          e4 = e3 @ logQuiet q (''Tag '' @ nextVersionTag @ '' created'')
      in if \<not> checkOk w then (e1, Inl ChecksFailed)
         else if \<not> commitOk w then (e2, Inl GitCommitFailed)
         else if \<not> tagOk w then (e3, Inl GitTagFailed)
         else if noPush args then
           (e4 @ logWarn ''no-push mode - stopping before push'' @
            logQuiet q ''To revert:'' @
            logQuiet q (''git reset --hard HEAD~1 && git tag -d '' @ nextVersionTag) @
            logQuiet q ''To complete release:'' @
            logQuiet q ''git push && git push --tags'', Inr ())
         else if \<not> pushOk w then
           (e4 @ logQuiet q ''Pushing to remote...'' @ runCommand ''git push'' False, Inl GitPushFailed)
         else if \<not> pushTagsOk w then
           (e4 @ logQuiet q ''Pushing to remote...'' @ runCommand ''git push'' True @
            runCommand ''git push --tags'' False, Inl GitPushTagsFailed)
         else
           (e4 @ logQuiet q ''Pushing to remote...'' @ runCommand ''git push'' True @
            runCommand ''git push --tags'' True @ logQuiet q ''Pushed to remote'' @
            logQuiet q (''Release '' @ nextVersionTag @ '' complete!''), Inr ()))"

text \<open>Lines 334 to 444: the confirmation and everything after it.\<close>

definition releaseStage :: "Args \<Rightarrow> World \<Rightarrow> ProjectInfo \<Rightarrow> ParsedChangelog \<Rightarrow> string \<Rightarrow> unit step" where
  "releaseStage args w info parsed nextVersion =
     (let bump = logQuiet (quiet args)
                   (''Version bump: '' @ info_version info @ '' -> '' @ nextVersion)
      in if \<not> yes args \<and> \<not> stdinIsTTY w then (bump, Inl NonInteractiveWithoutConsent)
         else if \<not> yes args \<and> \<not> promptValue w then (bump @ logQuiet (quiet args) ''Cancelled.'', Inr ())
         else andThen (bump, Inr ()) (\<lambda>u.
              andThen (mutateStage (quiet args) w info parsed nextVersion) (\<lambda>changelog.
              publishStage args w nextVersion changelog)))"

text \<open>
  Lines 221 to 445 of \<open>main()\<close>, with the version argument at hand. The line about the
  push mode is logged before \<open>isQuiet\<close> is set.
\<close>

definition releaseWith :: "string \<Rightarrow> Args \<Rightarrow> World \<Rightarrow> unit step" where
  "releaseWith versionArg args w =
     andThen ((if noPush args
               then logWarn ''Running in no-push mode. No changes will be pushed to the remote.''
               else logQuiet False ''Running in push mode. Changes will be pushed to the remote.''),
              Inr ()) (\<lambda>u.
     andThen (verifyStage (quiet args) w) (\<lambda>info.
     andThen (parseStage (strict args) w) (\<lambda>parsedChangelog.
     andThen (ensureReleasable (strict args) parsedChangelog) (\<lambda>parsed.
     andThen ([], resolveVersion (info_version info) versionArg (preid args) w) (\<lambda>nextVersion.
     andThen ([], checkHigherVersions (entries parsed) nextVersion) (\<lambda>u.
     releaseStage args w info parsed nextVersion))))))"

text \<open>\<open>main()\<close>\<close>

definition main :: "Args \<Rightarrow> World \<Rightarrow> unit step" where
  "main args w =
     (if help_flag args then ([ShowHelp], Inr ())
      else if version_flag args then ([Print StdOut ''release version 0.3.0''], Inr ())
      else (case positionals args of
              [] \<Rightarrow> ([ShowHelp], Inl MissingVersionArgument)
            | versionArg # r \<Rightarrow>
                if versionArg = [] then ([ShowHelp], Inl MissingVersionArgument)
                else releaseWith versionArg args w))"

text \<open>
  A whole run: \<open>exitError\<close> puts the message on the error stream and leaves with code 1;
  an exception does the same through \<open>main().catch\<close>.
\<close>

definition runRelease :: "Args \<Rightarrow> World \<Rightarrow> event list \<times> nat" where
  "runRelease args w =
     (case main args w of
        (evs, Inl e) \<Rightarrow> (evs @ [Print StdErr (errorMessage e)], 1)
      | (evs, Inr u) \<Rightarrow> (evs, 0))"

text \<open>What a trace shows: the lines of a stream, and the writes to the files.\<close>

fun linesOf :: "stream \<Rightarrow> event list \<Rightarrow> string list" where
  "linesOf s [] = []"
| "linesOf s (Print t m # evs) = (if t = s then m # linesOf s evs else linesOf s evs)"
| "linesOf s (e # evs) = linesOf s evs"

fun isFileWrite :: "event \<Rightarrow> bool" where
  "isFileWrite (WriteVersion f v) = True"
| "isFileWrite (AddVersionsEntry v m) = True"
| "isFileWrite (WriteChangelog t) = True"
| "isFileWrite e = False"

definition fileWrites :: "event list \<Rightarrow> event list" where
  "fileWrites evs = filter isFileWrite evs"

section \<open>Notions for the statements\<close>

fun wfIdent :: "ident \<Rightarrow> bool" where
  "wfIdent (Num n) = True"
| "wfIdent (Alnum s) = (s \<noteq> [] \<and> list_all isIdChar s \<and> \<not> list_all isDigit s)"

definition isPreChar :: "char \<Rightarrow> bool" where
  "isPreChar c = (isIdChar c \<or> c = CHR ''.'')"

definition coreString :: "semver \<Rightarrow> string" where
  "coreString v = showNat (major v) @ ''.'' @ showNat (minor v) @ ''.'' @ showNat (patch v)"

text \<open>
  The project of the repository's command-line tests: version 1.0.0 in the three
  documents, the branch names given by the two environment variables, no terminal, and a
  commit that fails.
\<close>

definition cliTestWorld :: "string \<Rightarrow> string \<Rightarrow> string \<Rightarrow> World" where
  "cliTestWorld changelog defaultBranch currentBranch =
     \<lparr>project_read_error = None,
      manifest_version = Some ''1.0.0'',
      manifest_id = Some ''test'',
      manifest_minAppVersion = Some ''1.0.0'',
      package_version = Some ''1.0.0'',
      versions_json = [''1.0.0'' \<mapsto> ''1.0.0''],
      changelog_md = Some changelog,
      today = ''2024-01-02'',
      TEST_CURRENT_BRANCH = Some currentBranch,
      TEST_DEFAULT_BRANCH = Some defaultBranch,
      gitCurrentBranch = None,
      gitDefaultBranch = None,
      stdinIsTTY = False,
      promptValue = False,
      checkOk = True,
      commitOk = False,
      tagOk = False,
      pushOk = False,
      pushTagsOk = False\<rparr>"

definition cliTestArgs :: "bool \<Rightarrow> string \<Rightarrow> string option \<Rightarrow> Args" where
  "cliTestArgs strictMode versionArg identifier =
     \<lparr>help_flag = False, version_flag = False, noPush = True, yes = True, quiet = False,
      strict = strictMode, preid = identifier, positionals = [versionArg]\<rparr>"

text \<open>The changelog of the strict-mode test: a release and no unreleased section.\<close>

definition strictTestChangelog :: string where
  "strictTestChangelog =
     ''# Changelog'' @ [LF, LF] @ ''## [1.0.0] - 2024-01-01'' @ [LF, LF] @
     ''- Initial release'' @ [LF]"

text \<open>The changelog of the branch-policy tests: one unreleased section with a change.\<close>

definition branchTestChangelog :: string where
  "branchTestChangelog =
     ''# Changelog'' @ [LF, LF] @ ''## [Unreleased]'' @ [LF, LF] @
     ''- Initial unreleased changes.'' @ [LF]"

text \<open>An entry the filter of \<open>main\<close> compares: its version is there and not \<open>unreleased\<close>.\<close>

definition isRecorded :: "ChangelogEntry \<Rightarrow> bool" where
  "isRecorded e = (truthy (version e) \<and> version e \<noteq> Some unreleased)"

text \<open>The entries of a changelog with the releases 2.0.0 and 1.2.0.\<close>

definition recordedEntries :: "ChangelogEntry list" where
  "recordedEntries =
     [\<lparr>version = Some ''unreleased'', header = ''## [Unreleased]'', content = ''- New feature''\<rparr>,
      \<lparr>version = Some ''2.0.0'', header = ''## [2.0.0] - 2024-02-01'', content = ''- Newer''\<rparr>,
      \<lparr>version = None, header = ''## Notes'', content = []\<rparr>,
      \<lparr>version = Some ''1.2.0'', header = ''## [1.2.0] - 2024-01-01'', content = ''- Old''\<rparr>]"

text \<open>The header and the version of an entry.\<close>

definition headerVersion :: "ChangelogEntry \<Rightarrow> string \<times> string option" where
  "headerVersion e = (header e, version e)"

text \<open>
  What the loop makes of one line: for a second-level heading, the header and the version
  of the entry it opens; nothing for another line.
\<close>

definition headingOf :: "string \<Rightarrow> (string \<times> string option) option" where
  "headingOf line =
     (case headingMatch line of
        None \<Rightarrow> None
      | Some g \<Rightarrow> Some (trim line, fst (classifyHeader (trim line) (trim g))))"

definition loopEntries :: "string \<Rightarrow> ChangelogEntry list" where
  "loopEntries input = flushEntry (foldl parseLine initialState (splitLines input))"

text \<open>The text \<open>X.Y.Z\<close> of three numbers.\<close>

definition versionText :: "nat \<Rightarrow> nat \<Rightarrow> nat \<Rightarrow> string" where
  "versionText x y z = showNat x @ ''.'' @ showNat y @ ''.'' @ showNat z"

text \<open>A character that ends a version token: no digit and none of \<open>- + . _\<close>.\<close>

definition endsToken :: "string \<Rightarrow> bool" where
  "endsToken r = (r = [] \<or> (\<not> isDigit (hd r) \<and> hd r \<notin> set ''-+._''))"

text \<open>
  An identifier for \<open>--preid\<close> that is absent, empty, or one alphanumeric pre-release
  identifier (letters, digits and hyphens, not digits only).
\<close>

definition plainIdentifier :: "string option \<Rightarrow> bool" where
  "plainIdentifier identifier =
     (case identifier of None \<Rightarrow> True | Some i \<Rightarrow> i = [] \<or> wfIdent (Alnum i))"

text \<open>The version that \<open>main\<close> accepts for a version object, as a version object.\<close>

definition normalized :: "semver \<Rightarrow> semver" where
  "normalized u =
     (case prerelease u of
        [Alnum i, Num n] \<Rightarrow> u\<lparr>prerelease := [Alnum (i @ showNat n)], build := []\<rparr>
      | _ \<Rightarrow> u\<lparr>build := []\<rparr>)"







text \<open>
  A heading line whose text has a version-shaped token that is not a semantic version.
\<close>

definition malformedHeading :: "string \<Rightarrow> bool" where
  "malformedHeading line =
     (case headingMatch line of
        None \<Rightarrow> False
      | Some g \<Rightarrow>
          (case versionMatch (trim g) of None \<Rightarrow> False | Some tok \<Rightarrow> valid (trim tok) = None))"

text \<open>
  A heading line whose text has no version-shaped token and contains "unreleased" in any
  case.
\<close>

definition unreleasedHeading :: "string \<Rightarrow> bool" where
  "unreleasedHeading line =
     (case headingMatch line of
        None \<Rightarrow> False
      | Some g \<Rightarrow>
          versionMatch (trim g) = None \<and> includesStr (toLowerCase (trim g)) unreleased)"

text \<open>
  The text before the first second-level heading: its lines other than the title lines,
  each with a line feed.
\<close>

definition preamble :: "string list \<Rightarrow> string" where
  "preamble ls =
     concat (map (\<lambda>l. l @ [LF])
       (filter (\<lambda>l. \<not> startsWith l ''# '') (takeWhile (\<lambda>l. headingMatch l = None) ls)))"



text \<open>
  \<open>inc\<close> with the keyword prerelease continues the pre-release series of the current
  version: it keeps the identifiers it has bumped. It does so when no identifier is given,
  and when the bumped pre-release part starts with the identifier followed by a number;
  otherwise it starts a new series, the identifier followed by 0.
\<close>

definition keepsSeries :: "string option \<Rightarrow> ident list \<Rightarrow> bool" where
  "keepsSeries identifier pre = (applyIdentifier identifier (bumpPre pre) = bumpPre pre)"

text \<open>
  The last two identifiers are 0 and a number: written without the dot between them
  they are a number with a leading zero, which is no identifier.
\<close>

definition zeroMerged :: "ident list \<Rightarrow> bool" where
  "zeroMerged pre = (case rev pre of Num m # Num j # r \<Rightarrow> j = 0 | _ \<Rightarrow> False)"

text \<open>The one version is above the other by its three numbers.\<close>

definition mainGreater :: "semver \<Rightarrow> semver \<Rightarrow> bool" where
  "mainGreater a b =
     (major b < major a \<or>
      (major a = major b \<and> (minor b < minor a \<or> (minor a = minor b \<and> patch b < patch a))))"

text \<open>
  Cases in which the resolved string is again a semantic version after the dot is
  removed: a keyword that gives a release; a pre-release keyword that starts a series,
  with an identifier that is absent, empty or one alphanumeric identifier; the keyword
  prerelease on a continued series, unless the dot that goes stands between a 0 and a
  number.
\<close>

definition remainsVersion :: "releaseType \<Rightarrow> string option \<Rightarrow> semver \<Rightarrow> bool" where
  "remainsVersion releaseType identifier v =
     (if releaseType = Prerelease \<and> prerelease v \<noteq> []
      then \<not> zeroMerged (bumpPre (prerelease v))
      else \<not> startsWithPre releaseType \<or> plainIdentifier identifier)"

text \<open>
  The pre-release part starts with the identifier written together with a number, the
  form in which the dot removal of the script leaves \<open>identifier.N\<close> (for \<open>beta\<close>:
  \<open>beta0\<close>, \<open>beta12\<close>).
\<close>

definition ownMerged :: "string \<Rightarrow> ident list \<Rightarrow> bool" where
  "ownMerged i pre =
     (case pre of
        Alnum s # r \<Rightarrow> take (length i) s = i \<and> isDigits (drop (length i) s)
      | _ \<Rightarrow> False)"


section \<open>Decimal numerals\<close>


lemma digitChar_isDigit: "n < 10 \<Longrightarrow> isDigit (digitChar n)"
proof -
  assume "n < 10"
  then have "n \<in> {0,1,2,3,4,5,6,7,8,9}" by auto
  then show ?thesis by (auto simp: digitChar_def isDigit_def)
qed

lemma digitVal_digitChar: "n < 10 \<Longrightarrow> digitVal (digitChar n) = n"
proof -
  assume "n < 10"
  then have "n \<in> {0,1,2,3,4,5,6,7,8,9}" by auto
  then show ?thesis by (auto simp: digitChar_def digitVal_def)
qed

lemma digitChar_zero: "n < 10 \<Longrightarrow> (digitChar n = CHR ''0'') = (n = 0)"
proof -
  assume "n < 10"
  then have "n \<in> {0,1,2,3,4,5,6,7,8,9}" by auto
  then show ?thesis by (auto simp: digitChar_def)
qed

lemma showNat_digits: "list_all isDigit (showNat n)"
  by (induction n rule: showNat.induct) (subst showNat.simps, simp add: digitChar_isDigit)

lemma showNat_nonempty: "showNat n \<noteq> []"
  by (subst showNat.simps) simp

lemma readNat_snoc: "readNat (ds @ [c]) = 10 * readNat ds + digitVal c"
  by (simp add: readNat_def)

lemma readNat_showNat: "readNat (showNat n) = n"
proof (induction n rule: showNat.induct)
  case (1 n)
  show ?case
  proof (cases "n < 10")
    case True
    then show ?thesis by (subst showNat.simps) (simp add: readNat_def digitVal_digitChar)
  next
    case False
    with 1 show ?thesis
      by (subst showNat.simps) (simp add: readNat_snoc digitVal_digitChar)
  qed
qed

lemma showNat_hd: "length (showNat n) = 1 \<or> hd (showNat n) \<noteq> CHR ''0''"
proof (induction n rule: showNat.induct)
  case (1 n)
  show ?case
  proof (cases "n < 10")
    case True
    then show ?thesis by (subst showNat.simps) simp
  next
    case False
    then have d: "n div 10 \<noteq> 0" by simp
    have IH: "length (showNat (n div 10)) = 1 \<or> hd (showNat (n div 10)) \<noteq> CHR ''0''"
      using 1 False by simp
    have h0: "hd (showNat (n div 10)) \<noteq> CHR ''0''"
    proof (cases "n div 10 < 10")
      case True
      then show ?thesis using d by (subst showNat.simps) (simp add: digitChar_zero)
    next
      case F2: False
      then have "length (showNat (n div 10)) \<noteq> 1"
        by (subst showNat.simps) (simp add: showNat_nonempty)
      with IH show ?thesis by simp
    qed
    show ?thesis using False h0
      by (subst (2) showNat.simps, subst showNat.simps) (simp add: showNat_nonempty)
  qed
qed

lemma showNat_numeric: "isNumericId (showNat n)"
  using showNat_hd[of n] by (simp add: isNumericId_def showNat_digits showNat_nonempty)

section \<open>Parsing a formatted version\<close>

lemma digit_not_space: "isDigit c \<Longrightarrow> \<not> isSpace c"
  by (auto simp: isDigit_def isSpace_def)

lemma alpha_not_space: "isAlpha c \<Longrightarrow> \<not> isSpace c"
  by (auto simp: isAlpha_def isSpace_def)

lemma idChar_not_space: "isIdChar c \<Longrightarrow> \<not> isSpace c"
  by (auto simp: isIdChar_def isDigit_def isAlpha_def isSpace_def)

lemma trim_no_space: "list_all (\<lambda>c. \<not> isSpace c) s \<Longrightarrow> trim s = s"
proof -
  assume a: "list_all (\<lambda>c. \<not> isSpace c) s"
  have 1: "dropWhile isSpace s = s"
    using a by (cases s) auto
  have "list_all (\<lambda>c. \<not> isSpace c) (rev s)" using a by (simp add: list_all_iff)
  then have 2: "dropWhile isSpace (rev s) = rev s"
    by (cases "rev s") auto
  show ?thesis by (simp add: trim_def trimStart_def trimEnd_def 1 2)
qed

lemma takeWhile_stop:
  "list_all P xs \<Longrightarrow> ys = [] \<or> \<not> P (hd ys) \<Longrightarrow> takeWhile P (xs @ ys) = xs"
  by (induction xs) (cases ys; auto)+

lemma dropWhile_stop:
  "list_all P xs \<Longrightarrow> ys = [] \<or> \<not> P (hd ys) \<Longrightarrow> dropWhile P (xs @ ys) = ys"
  by (induction xs) (cases ys; auto)+

lemma splitOn_single: "d \<notin> set xs \<Longrightarrow> splitOn d xs = [xs]"
  by (induction xs) auto

lemma splitOn_append: "d \<notin> set xs \<Longrightarrow> splitOn d (xs @ d # ys) = xs # splitOn d ys"
  by (induction xs) auto

lemma splitOn_join:
  "xs \<noteq> [] \<Longrightarrow> list_all (\<lambda>x. d \<notin> set x) xs \<Longrightarrow> splitOn d (joinWith [d] xs) = xs"
proof (induction "[d]" xs rule: joinWith.induct)
  case 1
  then show ?case by simp
next
  case (2 x)
  then show ?case by (simp add: splitOn_single)
next
  case (3 x y ys)
  then show ?case by (simp add: splitOn_append)
qed

lemma digit_idChar: "isDigit c \<Longrightarrow> isIdChar c"
  by (simp add: isIdChar_def)

lemma showIdent_chars: "wfIdent i \<Longrightarrow> list_all isIdChar (showIdent i)"
  using showNat_digits by (cases i) (auto simp: list_all_iff digit_idChar)

lemma parseIdent_showIdent: "wfIdent i \<Longrightarrow> parseIdent (showIdent i) = Some i"
proof (cases i)
  case (Num n)
  have "list_all isIdChar (showNat n)"
    using showNat_digits[of n] by (auto simp: list_all_iff digit_idChar)
  then show ?thesis
    using Num by (simp add: parseIdent_def showNat_nonempty showNat_digits showNat_numeric readNat_showNat)
next
  case (Alnum s)
  assume "wfIdent i"
  then show ?thesis using Alnum by (simp add: parseIdent_def)
qed

lemma those_map_parse:
  "list_all wfIdent pre \<Longrightarrow> those (map parseIdent (map showIdent pre)) = Some pre"
  by (induction pre) (auto simp: parseIdent_showIdent)

lemma idChar_not_dot: "isIdChar c \<Longrightarrow> c \<noteq> CHR ''.'' \<and> c \<noteq> CHR ''+''"
  by (auto simp: isIdChar_def isDigit_def isAlpha_def)

lemma showIdent_no_dot: "wfIdent i \<Longrightarrow> CHR ''.'' \<notin> set (showIdent i)"
  using showIdent_chars[of i] idChar_not_dot by (auto simp: list_all_iff)

lemma parsePrerelease_join:
  assumes "pre \<noteq> []" "list_all wfIdent pre"
  shows "parsePrerelease (joinWith ''.'' (map showIdent pre)) = Some pre"
proof -
  have "list_all (\<lambda>x. CHR ''.'' \<notin> set x) (map showIdent pre)"
    using assms(2) showIdent_no_dot by (auto simp: list_all_iff)
  then have "splitOn (CHR ''.'') (joinWith [CHR ''.''] (map showIdent pre)) = map showIdent pre"
    using assms(1) by (intro splitOn_join) auto
  then show ?thesis using those_map_parse[OF assms(2)] by (simp add: parsePrerelease_def)
qed

lemma joinWith_chars:
  "list_all (list_all P) xs \<Longrightarrow> list_all P sep \<Longrightarrow> list_all P (joinWith sep xs)"
  by (induction sep xs rule: joinWith.induct) auto

lemma preString_chars:
  "list_all wfIdent pre \<Longrightarrow> list_all isPreChar (joinWith ''.'' (map showIdent pre))"
proof -
  assume a: "list_all wfIdent pre"
  have "list_all (list_all isPreChar) (map showIdent pre)"
    using a showIdent_chars by (auto simp: list_all_iff isPreChar_def)
  then show ?thesis by (intro joinWith_chars) (auto simp: isPreChar_def)
qed

lemma preChar_props: "isPreChar c \<Longrightarrow> notPlus c \<and> \<not> isSpace c"
  by (auto simp: isPreChar_def notPlus_def isIdChar_def isDigit_def isAlpha_def isSpace_def)

lemma parseTail_pre:
  assumes "pre \<noteq> []" "list_all wfIdent pre"
  shows "parseTail (CHR ''-'' # joinWith ''.'' (map showIdent pre)) = Some (pre, [])"
proof -
  let ?s = "joinWith ''.'' (map showIdent pre)"
  have np: "list_all notPlus ?s"
    using preString_chars[OF assms(2)] preChar_props by (auto simp: list_all_iff)
  have t: "takeWhile notPlus ?s = ?s" using np by (simp add: list_all_iff)
  have d: "dropWhile notPlus ?s = []" using np by (simp add: list_all_iff)
  show ?thesis
    by (simp add: parseTail_def t d parsePrerelease_join[OF assms])
qed

lemma digit_not_dot: "isDigit c \<Longrightarrow> c \<noteq> CHR ''.''"
  by (auto simp: isDigit_def)

lemma showNat_no_dot: "CHR ''.'' \<notin> set (showNat n)"
  using showNat_digits[of n] digit_not_dot by (auto simp: list_all_iff)

lemma parseCore_coreString: "parseCore (coreString v) = Some (major v, minor v, patch v)"
proof -
  have c: "coreString v =
      showNat (major v) @ CHR ''.'' # (showNat (minor v) @ CHR ''.'' # showNat (patch v))"
    by (simp add: coreString_def)
  have "splitOn (CHR ''.'') (coreString v) =
      showNat (major v) # showNat (minor v) # splitOn (CHR ''.'') (showNat (patch v))"
    by (simp only: c splitOn_append[OF showNat_no_dot])
  then have "splitOn (CHR ''.'') (coreString v) =
      [showNat (major v), showNat (minor v), showNat (patch v)]"
    by (simp only: splitOn_single[OF showNat_no_dot])
  then show ?thesis by (simp add: parseCore_def showNat_numeric readNat_showNat)
qed

lemma coreString_chars: "list_all isCoreChar (coreString v)"
proof -
  have d: "\<And>c. isDigit c \<Longrightarrow> isCoreChar c"
    by (auto simp: isCoreChar_def isDigit_def)
  have "\<And>n. list_all isCoreChar (showNat n)"
  proof -
    fix n show "list_all isCoreChar (showNat n)"
      using showNat_digits[of n] d by (simp add: list_all_iff)
  qed
  then show ?thesis by (simp add: coreString_def isCoreChar_def)
qed

lemma coreString_hd: "coreString v \<noteq> [] \<and> isDigit (hd (coreString v))"
  using showNat_digits[of "major v"] showNat_nonempty[of "major v"]
  by (cases "showNat (major v)") (auto simp: coreString_def)

lemma format_alt:
  "format v = coreString v @
     (if prerelease v = [] then [] else CHR ''-'' # joinWith ''.'' (map showIdent (prerelease v)))"
  by (simp add: format_def coreString_def)

lemma format_no_space:
  assumes "list_all wfIdent (prerelease v)"
  shows "list_all (\<lambda>c. \<not> isSpace c) (format v)"
proof -
  have 1: "list_all (\<lambda>c. \<not> isSpace c) (coreString v)"
  proof -
    have "\<And>n. list_all (\<lambda>c. \<not> isSpace c) (showNat n)"
    proof -
      fix n show "list_all (\<lambda>c. \<not> isSpace c) (showNat n)"
        using showNat_digits[of n] digit_not_space by (simp add: list_all_iff)
    qed
    then show ?thesis by (simp add: coreString_def isSpace_def)
  qed
  have 2: "list_all (\<lambda>c. \<not> isSpace c) (joinWith ''.'' (map showIdent (prerelease v)))"
    using preString_chars[OF assms] preChar_props by (auto simp: list_all_iff)
  show ?thesis using 1 2 by (simp add: format_alt isSpace_def)
qed

lemma stripV_digit: "s \<noteq> [] \<and> isDigit (hd s) \<Longrightarrow> stripV s = s"
  by (cases s) (auto simp: stripV_def isDigit_def)

lemma parse_format:
  assumes "list_all wfIdent (prerelease v)"
  shows "parseSemver (format v) =
     Some \<lparr>major = major v, minor = minor v, patch = patch v, prerelease = prerelease v, build = []\<rparr>"
proof -
  let ?t = "if prerelease v = [] then [] else CHR ''-'' # joinWith ''.'' (map showIdent (prerelease v))"
  have f: "format v = coreString v @ ?t" by (rule format_alt)
  have tr: "trim (format v) = format v" using format_no_space[OF assms] by (rule trim_no_space)
  have hd: "format v \<noteq> [] \<and> isDigit (hd (format v))"
    using coreString_hd[of v] by (simp add: f)
  have sv: "stripV (format v) = format v" using hd by (rule stripV_digit)
  have stop: "?t = [] \<or> \<not> isCoreChar (hd ?t)" by (simp add: isCoreChar_def)
  have tk: "takeWhile isCoreChar (format v) = coreString v"
    unfolding f using coreString_chars stop by (rule takeWhile_stop)
  have dr: "dropWhile isCoreChar (format v) = ?t"
    unfolding f using coreString_chars stop by (rule dropWhile_stop)
  have tl: "parseTail ?t = Some (prerelease v, [])"
  proof (cases "prerelease v = []")
    case True
    then show ?thesis by (simp add: parseTail_def)
  next
    case False
    then show ?thesis using parseTail_pre[OF False assms] by simp
  qed
  have "parseSemver (format v) =
     (case parseCore (takeWhile isCoreChar (stripV (trim (format v)))) of
        None \<Rightarrow> None
      | Some (ma, mi, pa) \<Rightarrow>
          (case parseTail (dropWhile isCoreChar (stripV (trim (format v)))) of
             None \<Rightarrow> None
           | Some (pre, b) \<Rightarrow>
               Some \<lparr>major = ma, minor = mi, patch = pa, prerelease = pre, build = b\<rparr>))"
    by (simp only: parseSemver_def Let_def)
  also have "\<dots> = Some \<lparr>major = major v, minor = minor v, patch = patch v,
       prerelease = prerelease v, build = []\<rparr>"
    by (simp only: tr sv tk dr parseCore_coreString tl option.case prod.case)
  finally show ?thesis .
qed

section \<open>The classification of a heading\<close>

lemma format_hd_digit: "format v \<noteq> [] \<and> isDigit (hd (format v))"
  using coreString_hd[of v] by (simp add: format_alt)

lemma valid_not_unreleased: "valid s \<noteq> Some unreleased"
proof
  assume "valid s = Some unreleased"
  then obtain v where "format v = unreleased" by (auto simp: valid_def)
  then have "isDigit (hd unreleased)" using format_hd_digit[of v] by simp
  then show False by (simp add: unreleased_def isDigit_def)
qed

section \<open>The normalization of a pre-release version\<close>

lemma removeDot_last:
  "isDigits ds \<Longrightarrow> removeDot (a @ CHR ''.'' # ds) = a @ ds"
proof (induction a)
  case Nil
  then show ?case by simp
next
  case (Cons c a)
  have "\<not> isDigits (a @ CHR ''.'' # ds)"
    by (simp add: isDigits_def isDigit_def)
  with Cons show ?case by simp
qed

lemma joinWith_snoc2:
  "joinWith sep (xs @ [y, z]) = joinWith sep (xs @ [y]) @ sep @ z"
  by (induction sep xs rule: joinWith.induct) auto

lemma prereleaseOf_format:
  "list_all wfIdent (prerelease v) \<Longrightarrow> prerelease v \<noteq> [] \<Longrightarrow> prereleaseOf (format v) = Some (prerelease v)"
  by (simp add: prereleaseOf_def parse_format)

lemma isDigits_showNat: "isDigits (showNat n)"
  by (simp add: isDigits_def showNat_nonempty showNat_digits)

lemma format_merge:
  assumes "prerelease v = pre @ [x, Num n]"
  shows "format v =
     (coreString v @ ''-'' @ joinWith ''.'' (map showIdent (pre @ [x]))) @ CHR ''.'' # showNat n"
  using assms by (simp add: format_alt joinWith_snoc2)

lemma example_inc: "inc ''1.0.0'' Prerelease (Some ''beta'') = Some ''1.0.1-beta.0''"
  by code_simp

lemma example_normalize: "bratNormalize ''1.0.1-beta.0'' = ''1.0.1-beta0''"
  by code_simp

text \<open>
  Claim C7. A resolved version whose pre-release part ends in a number after a dot loses
  that dot: for a version with the pre-release identifiers \<open>pre @ [x, n]\<close>, the accepted
  string is the version with \<open>x\<close> and \<open>n\<close> written together. From 1.0.0, the keyword
  \<open>prerelease\<close> with the identifier \<open>beta\<close> resolves to exactly 1.0.1-beta0 (when
  the branch policy does not stop the run).
\<close>

theorem prerelease_dot_removed:
  "(list_all wfIdent (prerelease v) \<and> prerelease v = pre @ [x, Num n] \<longrightarrow>
      acceptVersion versionArg (Some (format v)) =
        Inr (coreString v @ ''-'' @ joinWith ''.'' (map showIdent (pre @ [x])) @ showNat n)) \<and>
   (\<not> onDefaultBranch w \<longrightarrow>
      resolveVersion ''1.0.0'' ''prerelease'' (Some ''beta'') w = Inr ''1.0.1-beta0'')"
proof (intro conjI impI)
  assume a: "list_all wfIdent (prerelease v) \<and> prerelease v = pre @ [x, Num n]"
  then have ne: "prerelease v \<noteq> []" by simp
  have p: "prereleaseOf (format v) \<noteq> None"
    using prereleaseOf_format[OF conjunct1[OF a] ne] by simp
  have f: "format v \<noteq> []" using format_hd_digit[of v] by simp
  have "removeDot (format v) =
      (coreString v @ ''-'' @ joinWith ''.'' (map showIdent (pre @ [x]))) @ showNat n"
    unfolding format_merge[OF conjunct2[OF a]]
    by (rule removeDot_last[OF isDigits_showNat])
  then show "acceptVersion versionArg (Some (format v)) =
        Inr (coreString v @ ''-'' @ joinWith ''.'' (map showIdent (pre @ [x])) @ showNat n)"
    using p f by (simp add: acceptVersion_def truthy_def orEmpty_def bratNormalize_def)
next
  assume "\<not> onDefaultBranch w"
  then show "resolveVersion ''1.0.0'' ''prerelease'' (Some ''beta'') w = Inr ''1.0.1-beta0''"
    by (simp add: resolveVersion_def releaseTypeOf_def example_inc acceptVersion_def truthy_def
        orEmpty_def example_normalize)
qed

lemma example_format:
  "format \<lparr>major = 1, minor = 0, patch = 1, prerelease = [Alnum ''beta'', Num 0], build = []\<rparr> =
     ''1.0.1-beta.0''"
  by code_simp

lemma example_merged:
  "coreString \<lparr>major = 1, minor = 0, patch = 1, prerelease = [Alnum ''beta'', Num 0], build = []\<rparr> @
     ''-'' @ joinWith ''.'' (map showIdent ([] @ [Alnum ''beta''])) @ showNat 0 = ''1.0.1-beta0''"
  by code_simp

lemma example_branches: "\<not> onDefaultBranch (cliTestWorld [] ''main'' ''develop'')"
  by code_simp

lemma example_wf: "list_all wfIdent [Alnum ''beta'', Num 0]"
  by code_simp

theorem prerelease_dot_removed_witness:
  "list_all wfIdent [Alnum ''beta'', Num 0] \<and>
   acceptVersion ''prerelease'' (Some ''1.0.1-beta.0'') = Inr ''1.0.1-beta0'' \<and>
   \<not> onDefaultBranch (cliTestWorld [] ''main'' ''develop'') \<and>
   resolveVersion ''1.0.0'' ''prerelease'' (Some ''beta'') (cliTestWorld [] ''main'' ''develop'') =
     Inr ''1.0.1-beta0''"
proof -
  let ?v = "\<lparr>major = 1, minor = 0, patch = 1, prerelease = [Alnum ''beta'', Num 0], build = []\<rparr>"
  let ?w = "cliTestWorld [] ''main'' ''develop''"
  note t = prerelease_dot_removed[of ?v "[]" "Alnum ''beta''" 0 "''prerelease''" ?w]
  have h: "list_all wfIdent (prerelease ?v) \<and> prerelease ?v = [] @ [Alnum ''beta'', Num 0]"
    using example_wf by simp
  have a: "acceptVersion ''prerelease'' (Some (format ?v)) =
      Inr (coreString ?v @ ''-'' @ joinWith ''.'' (map showIdent ([] @ [Alnum ''beta''])) @ showNat 0)"
    using t h by blast
  have b: "resolveVersion ''1.0.0'' ''prerelease'' (Some ''beta'') ?w = Inr ''1.0.1-beta0''"
    using t example_branches by blast
  have a': "acceptVersion ''prerelease'' (Some ''1.0.1-beta.0'') = Inr ''1.0.1-beta0''"
    using a unfolding example_format example_merged .
  show ?thesis using a' b example_branches example_wf by blast
qed

section \<open>Strict mode\<close>

lemma andThen_Inl: "andThen (evs, Inl e) f = (evs, Inl e)"
  by (simp add: andThen_def)

lemma andThen_Inr: "andThen (evs, Inr a) f = (evs @ fst (f a), snd (f a))"
  by (simp add: andThen_def split: prod.splits)

lemma linesOf_append: "linesOf s (xs @ ys) = linesOf s xs @ linesOf s ys"
  by (induction s xs rule: linesOf.induct) auto

lemma fileWrites_append: "fileWrites (xs @ ys) = fileWrites xs @ fileWrites ys"
  by (simp add: fileWrites_def)

lemma fileWrites_Nil: "fileWrites [] = []"
  by (simp add: fileWrites_def)

lemma fileWrites_Print: "fileWrites (Print s m # evs) = fileWrites evs"
  by (simp add: fileWrites_def)

lemma logQuiet_quiet: "fileWrites (logQuiet q m) = [] \<and> linesOf StdErr (logQuiet q m) = []"
  by (simp add: logQuiet_def fileWrites_def)

lemma logWarn_quiet: "fileWrites (logWarn m) = [] \<and> linesOf StdErr (logWarn m) = [] \<and>
    linesOf StdOut (logWarn m) = [m]"
  by (simp add: logWarn_def fileWrites_def)

lemma warnings_quiet:
  "fileWrites (concat (map logWarn ws)) = [] \<and> linesOf StdErr (concat (map logWarn ws)) = [] \<and>
   linesOf StdOut (concat (map logWarn ws)) = ws"
  by (induction ws) (auto simp: logWarn_def fileWrites_def)

lemma verifyStage_quiet:
  "fileWrites (fst (verifyStage q w)) = [] \<and> linesOf StdErr (fst (verifyStage q w)) = []"
  by (simp add: verifyStage_def logQuiet_quiet fileWrites_append linesOf_append
      split: sum.splits)

lemma parseStage_quiet:
  "fileWrites (fst (parseStage s w)) = [] \<and> linesOf StdErr (fst (parseStage s w)) = []"
  by (simp add: parseStage_def warnings_quiet fileWrites_Nil split: sum.splits)

lemma fillPlaceholder_quiet:
  "fileWrites evs = [] \<Longrightarrow> linesOf StdErr evs = [] \<Longrightarrow>
   fileWrites (fst (fillPlaceholder s evs u p)) = [] \<and>
   linesOf StdErr (fst (fillPlaceholder s evs u p)) = []"
  by (simp add: fillPlaceholder_def logWarn_quiet fileWrites_append linesOf_append)

lemma ensureReleasable_quiet:
  "fileWrites (fst (ensureReleasable s p)) = [] \<and> linesOf StdErr (fst (ensureReleasable s p)) = []"
  by (simp add: ensureReleasable_def fillPlaceholder_quiet logWarn_quiet fileWrites_Nil
      split: option.splits)

lemma pushMode_quiet:
  "fileWrites (if np then logWarn a else logQuiet False b) = [] \<and>
   linesOf StdErr (if np then logWarn a else logQuiet False b) = []"
  by (simp add: logWarn_quiet logQuiet_quiet)

text \<open>
  Claim C8 (as amended). In strict mode, when the parser has produced a warning, the run
  ends with code 1 before any file is written. Every warning is on the output stream,
  and the error stream holds one line, the strict-mode message.
\<close>

theorem strict_mode_aborts:
  assumes "\<not> help_flag args" and "\<not> version_flag args"
    and "positionals args = versionArg # rest" and "versionArg \<noteq> []"
    and "strict args"
    and "verifyStage (quiet args) w = (evs, Inr info)"
    and "changelog_md w = Some text"
    and "warnings (parseText text) \<noteq> []"
  shows "snd (runRelease args w) = 1 \<and>
         snd (main args w) = Inl StrictModeAborted \<and>
         fileWrites (fst (runRelease args w)) = [] \<and>
         linesOf StdErr (fst (runRelease args w)) =
           [''Strict mode: aborting due to changelog warnings.''] \<and>
         set (warnings (parseText text)) \<subseteq> set (linesOf StdOut (fst (runRelease args w)))"
proof -
  let ?first = "if noPush args
      then logWarn ''Running in no-push mode. No changes will be pushed to the remote.''
      else logQuiet False ''Running in push mode. Changes will be pushed to the remote.''"
  let ?warn = "concat (map logWarn (warnings (parseText text)))"
  have ps: "parseStage (strict args) w = (?warn, Inl StrictModeAborted)"
    using assms(5,7,8) by (simp add: parseStage_def parseChangelog_def)
  have m: "main args w = (?first @ evs @ ?warn, Inl StrictModeAborted)"
    using assms(1-4) by (simp add: main_def releaseWith_def andThen_Inr andThen_Inl assms(6) ps)
  have r: "runRelease args w =
      (?first @ evs @ ?warn @ [Print StdErr (errorMessage StrictModeAborted)], 1)"
    by (simp add: runRelease_def m)
  have e: "fileWrites evs = [] \<and> linesOf StdErr evs = []"
    using verifyStage_quiet[of "quiet args" w] by (simp add: assms(6))
  show ?thesis
    using e pushMode_quiet[of "noPush args"]
    by (auto simp add: r m fileWrites_append linesOf_append warnings_quiet errorMessage_def
        fileWrites_Nil fileWrites_Print)
qed

lemma strict_run:
  "runRelease (cliTestArgs True ''patch'' None) (cliTestWorld strictTestChangelog ''main'' ''main'') =
     ([Print StdOut ''Running in no-push mode. No changes will be pushed to the remote.'',
       Print StdOut ''Verifying project state...'',
       Print StdOut ''Project state is coherent.'',
       Print StdOut ''CHANGELOG.md: Missing [Unreleased] section; creating an empty placeholder.'',
       Print StdOut ''CHANGELOG.md: Unreleased section is empty.'',
       Print StdErr ''Strict mode: aborting due to changelog warnings.''], 1)"
  by code_simp

theorem strict_mode_stderr_counterexample:
  "snd (runRelease (cliTestArgs True ''patch'' None)
          (cliTestWorld strictTestChangelog ''main'' ''main'')) = 1 \<and>
   linesOf StdErr (fst (runRelease (cliTestArgs True ''patch'' None)
          (cliTestWorld strictTestChangelog ''main'' ''main''))) =
     [''Strict mode: aborting due to changelog warnings.''] \<and>
   \<not> includesStr ''Strict mode: aborting due to changelog warnings.'' ''Unreleased'' \<and>
   linesOf StdOut (fst (runRelease (cliTestArgs True ''patch'' None)
          (cliTestWorld strictTestChangelog ''main'' ''main''))) =
     [''Running in no-push mode. No changes will be pushed to the remote.'',
      ''Verifying project state...'',
      ''Project state is coherent.'',
      ''CHANGELOG.md: Missing [Unreleased] section; creating an empty placeholder.'',
      ''CHANGELOG.md: Unreleased section is empty.'']"
  unfolding strict_run by code_simp

lemma strict_verify:
  "verifyStage (quiet (cliTestArgs True ''patch'' None))
     (cliTestWorld strictTestChangelog ''main'' ''main'') =
   ([Print StdOut ''Verifying project state...'', Print StdOut ''Project state is coherent.''],
    Inr \<lparr>info_id = ''test'', info_version = ''1.0.0'', minAppVersion = ''1.0.0'',
         pkgVersion = ''1.0.0'', versions = [''1.0.0'' \<mapsto> ''1.0.0'']\<rparr>)"
  by (simp add: verifyStage_def getProjectInfo_def checkVersionCoherency_def cliTestWorld_def
      cliTestArgs_def truthy_def orEmpty_def logQuiet_def)

lemma strict_warnings:
  "warnings (parseText strictTestChangelog) =
     [''CHANGELOG.md: Missing [Unreleased] section; creating an empty placeholder.'',
      ''CHANGELOG.md: Unreleased section is empty.'']"
  by code_simp

theorem strict_mode_aborts_witness:
  "warnings (parseText strictTestChangelog) \<noteq> [] \<and>
   snd (runRelease (cliTestArgs True ''patch'' None)
          (cliTestWorld strictTestChangelog ''main'' ''main'')) = 1 \<and>
   fileWrites (fst (runRelease (cliTestArgs True ''patch'' None)
          (cliTestWorld strictTestChangelog ''main'' ''main''))) = [] \<and>
   linesOf StdErr (fst (runRelease (cliTestArgs True ''patch'' None)
          (cliTestWorld strictTestChangelog ''main'' ''main''))) =
     [''Strict mode: aborting due to changelog warnings.'']"
proof -
  have w: "warnings (parseText strictTestChangelog) \<noteq> []"
    by (simp add: strict_warnings)
  have "snd (runRelease (cliTestArgs True ''patch'' None)
          (cliTestWorld strictTestChangelog ''main'' ''main'')) = 1 \<and>
        snd (main (cliTestArgs True ''patch'' None)
          (cliTestWorld strictTestChangelog ''main'' ''main'')) = Inl StrictModeAborted \<and>
        fileWrites (fst (runRelease (cliTestArgs True ''patch'' None)
          (cliTestWorld strictTestChangelog ''main'' ''main''))) = [] \<and>
        linesOf StdErr (fst (runRelease (cliTestArgs True ''patch'' None)
          (cliTestWorld strictTestChangelog ''main'' ''main''))) =
          [''Strict mode: aborting due to changelog warnings.''] \<and>
        set (warnings (parseText strictTestChangelog)) \<subseteq>
          set (linesOf StdOut (fst (runRelease (cliTestArgs True ''patch'' None)
          (cliTestWorld strictTestChangelog ''main'' ''main''))))"
  proof (rule strict_mode_aborts[where versionArg = "''patch''" and rest = "[]",
        OF _ _ _ _ _ strict_verify _ w])
    show "\<not> help_flag (cliTestArgs True ''patch'' None)" by (simp add: cliTestArgs_def)
    show "\<not> version_flag (cliTestArgs True ''patch'' None)" by (simp add: cliTestArgs_def)
    show "positionals (cliTestArgs True ''patch'' None) = [''patch'']"
      by (simp add: cliTestArgs_def)
    show "''patch'' \<noteq> []" by simp
    show "strict (cliTestArgs True ''patch'' None)" by (simp add: cliTestArgs_def)
    show "changelog_md (cliTestWorld strictTestChangelog ''main'' ''main'') =
        Some strictTestChangelog"
      by (simp add: cliTestWorld_def)
  qed
  then show ?thesis using w by blast
qed

section \<open>The branch policy\<close>

lemma releaseTypeOf_nonempty: "releaseTypeOf a = Some rt \<Longrightarrow> a \<noteq> []"
  by (auto simp: releaseTypeOf_def)

text \<open>
  Claim C9. Take a run that reaches the resolution of the version (no help or version
  flag, a coherent project, a changelog that passes the parse and placeholder stages)
  with a bump keyword that is a pre-release bump: the keyword starts with \<open>pre\<close>, or
  the current version has a pre-release part. If the default and the current branch are
  both known (not null, not empty) and equal, the run ends with the branch-policy error,
  with code 1 and without writing a file. If one of them is not known, the check is
  skipped: the version is resolved as without it.
\<close>

theorem prerelease_branch_policy:
  assumes "\<not> help_flag args" and "\<not> version_flag args"
    and "positionals args = versionArg # rest"
    and "verifyStage (quiet args) w = (ev1, Inr info)"
    and "parseStage (strict args) w = (ev2, Inr parsed0)"
    and "ensureReleasable (strict args) parsed0 = (ev3, Inr parsed)"
    and "releaseTypeOf versionArg = Some releaseType"
    and "isPreRelease releaseType (info_version info)"
  shows "(truthy (getDefaultBranch w) \<and> truthy (getCurrentBranch w) \<and>
          getCurrentBranch w = getDefaultBranch w \<longrightarrow>
            snd (main args w) = Inl PrereleaseOnDefaultBranch \<and>
            snd (runRelease args w) = 1 \<and>
            fileWrites (fst (runRelease args w)) = [] \<and>
            linesOf StdErr (fst (runRelease args w)) =
              [''Pre-releases must be created from a non-default branch.'']) \<and>
         (\<not> truthy (getDefaultBranch w) \<or> \<not> truthy (getCurrentBranch w) \<longrightarrow>
            resolveVersion (info_version info) versionArg (preid args) w =
              acceptVersion versionArg (inc (info_version info) releaseType (preid args)))"
proof (rule conjI; rule impI)
  assume b: "truthy (getDefaultBranch w) \<and> truthy (getCurrentBranch w) \<and>
          getCurrentBranch w = getDefaultBranch w"
  let ?first = "if noPush args
      then logWarn ''Running in no-push mode. No changes will be pushed to the remote.''
      else logQuiet False ''Running in push mode. Changes will be pushed to the remote.''"
  have ne: "versionArg \<noteq> []" using assms(7) by (rule releaseTypeOf_nonempty)
  have rv: "resolveVersion (info_version info) versionArg (preid args) w =
      Inl PrereleaseOnDefaultBranch"
    using b assms(7,8) by (simp add: resolveVersion_def onDefaultBranch_def)
  have m: "main args w = (?first @ ev1 @ ev2 @ ev3, Inl PrereleaseOnDefaultBranch)"
    using assms(1-3) ne
    by (simp add: main_def releaseWith_def andThen_Inr andThen_Inl assms(4-6) rv)
  have r: "runRelease args w =
      (?first @ ev1 @ ev2 @ ev3 @ [Print StdErr (errorMessage PrereleaseOnDefaultBranch)], 1)"
    by (simp add: runRelease_def m)
  have e1: "fileWrites ev1 = [] \<and> linesOf StdErr ev1 = []"
    using verifyStage_quiet[of "quiet args" w] by (simp add: assms(4))
  have e2: "fileWrites ev2 = [] \<and> linesOf StdErr ev2 = []"
    using parseStage_quiet[of "strict args" w] by (simp add: assms(5))
  have e3: "fileWrites ev3 = [] \<and> linesOf StdErr ev3 = []"
    using ensureReleasable_quiet[of "strict args" parsed0] by (simp add: assms(6))
  show "snd (main args w) = Inl PrereleaseOnDefaultBranch \<and>
            snd (runRelease args w) = 1 \<and>
            fileWrites (fst (runRelease args w)) = [] \<and>
            linesOf StdErr (fst (runRelease args w)) =
              [''Pre-releases must be created from a non-default branch.'']"
    using e1 e2 e3 pushMode_quiet[of "noPush args"]
    by (simp add: r m fileWrites_append linesOf_append errorMessage_def
        fileWrites_Nil fileWrites_Print)
next
  assume "\<not> truthy (getDefaultBranch w) \<or> \<not> truthy (getCurrentBranch w)"
  then show "resolveVersion (info_version info) versionArg (preid args) w =
              acceptVersion versionArg (inc (info_version info) releaseType (preid args))"
    using assms(7) by (auto simp add: resolveVersion_def onDefaultBranch_def)
qed

lemma branch_verify:
  "verifyStage (quiet (cliTestArgs False ''prerelease'' None))
     (cliTestWorld branchTestChangelog ''main'' ''main'') =
   ([Print StdOut ''Verifying project state...'', Print StdOut ''Project state is coherent.''],
    Inr \<lparr>info_id = ''test'', info_version = ''1.0.0'', minAppVersion = ''1.0.0'',
         pkgVersion = ''1.0.0'', versions = [''1.0.0'' \<mapsto> ''1.0.0'']\<rparr>)"
  by (simp add: verifyStage_def getProjectInfo_def checkVersionCoherency_def cliTestWorld_def
      cliTestArgs_def truthy_def orEmpty_def logQuiet_def)

lemma branch_parsed:
  "parseText branchTestChangelog =
     \<lparr>title = ''# Changelog'', description = [],
      entries = [\<lparr>version = Some ''unreleased'', header = ''## [Unreleased]'',
                  content = ''- Initial unreleased changes.''\<rparr>],
      warnings = []\<rparr>"
  by code_simp

lemma branch_parse:
  "parseStage (strict (cliTestArgs False ''prerelease'' None))
     (cliTestWorld branchTestChangelog ''main'' ''main'') = ([], Inr (parseText branchTestChangelog))"
  by (simp add: parseStage_def parseChangelog_def cliTestWorld_def branch_parsed)

lemma branch_ensure:
  "ensureReleasable (strict (cliTestArgs False ''prerelease'' None)) (parseText branchTestChangelog) =
     ([], Inr (parseText branchTestChangelog))"
  unfolding branch_parsed by code_simp

lemma branch_names:
  "truthy (getDefaultBranch (cliTestWorld branchTestChangelog ''main'' ''main'')) \<and>
   truthy (getCurrentBranch (cliTestWorld branchTestChangelog ''main'' ''main'')) \<and>
   getCurrentBranch (cliTestWorld branchTestChangelog ''main'' ''main'') =
     getDefaultBranch (cliTestWorld branchTestChangelog ''main'' ''main'')"
  by (simp add: getDefaultBranch_def getCurrentBranch_def cliTestWorld_def truthy_def)

theorem prerelease_branch_policy_witness:
  "releaseTypeOf ''prerelease'' = Some Prerelease \<and>
   isPreRelease Prerelease ''1.0.0'' \<and>
   snd (main (cliTestArgs False ''prerelease'' None)
          (cliTestWorld branchTestChangelog ''main'' ''main'')) = Inl PrereleaseOnDefaultBranch \<and>
   snd (runRelease (cliTestArgs False ''prerelease'' None)
          (cliTestWorld branchTestChangelog ''main'' ''main'')) = 1 \<and>
   fileWrites (fst (runRelease (cliTestArgs False ''prerelease'' None)
          (cliTestWorld branchTestChangelog ''main'' ''main''))) = []"
proof -
  have k: "releaseTypeOf ''prerelease'' = Some Prerelease" by (simp add: releaseTypeOf_def)
  have i: "isPreRelease Prerelease ''1.0.0''" by (simp add: isPreRelease_def)
  have i': "isPreRelease Prerelease (info_version
      \<lparr>info_id = ''test'', info_version = ''1.0.0'', minAppVersion = ''1.0.0'',
         pkgVersion = ''1.0.0'', versions = [''1.0.0'' \<mapsto> ''1.0.0'']\<rparr>)"
    by (simp add: isPreRelease_def)
  note t = prerelease_branch_policy[where versionArg = "''prerelease''" and rest = "[]",
      OF _ _ _ branch_verify branch_parse branch_ensure k i']
  have "snd (main (cliTestArgs False ''prerelease'' None)
          (cliTestWorld branchTestChangelog ''main'' ''main'')) = Inl PrereleaseOnDefaultBranch \<and>
        snd (runRelease (cliTestArgs False ''prerelease'' None)
          (cliTestWorld branchTestChangelog ''main'' ''main'')) = 1 \<and>
        fileWrites (fst (runRelease (cliTestArgs False ''prerelease'' None)
          (cliTestWorld branchTestChangelog ''main'' ''main''))) = [] \<and>
        linesOf StdErr (fst (runRelease (cliTestArgs False ''prerelease'' None)
          (cliTestWorld branchTestChangelog ''main'' ''main''))) =
          [''Pre-releases must be created from a non-default branch.'']"
    using t branch_names by (simp add: cliTestArgs_def)
  then show ?thesis using k i by blast
qed

section \<open>The check of the higher versions\<close>

lemma compareNat_refl: "compareNat a a = EQ"
  by (simp add: compareNat_def)

lemma comparePreLoop_refl: "comparePreLoop xs xs = EQ"
  by (induction xs) auto

lemma compare_refl: "compare x x = EQ"
  by (simp add: compare_def compareMain_def comparePre_def compareNat_refl comparePreLoop_refl)

lemma gt_irrefl: "gt v v \<noteq> Some True"
  by (simp add: gt_def compare_refl split: option.splits)

lemma parseSemver_empty: "parseSemver [] = None"
  by code_simp

lemma gt_empty: "gt [] b = None"
  by (simp add: gt_def parseSemver_empty)

lemma gt_None_iff: "(gt a b = None) = (parseSemver a = None \<or> parseSemver b = None)"
  by (simp add: gt_def split: option.splits)

lemma higherVersions_valid:
  assumes "\<forall>e\<in>set es. isRecorded e \<longrightarrow> gt (orEmpty (version e)) nextVersion \<noteq> None"
  shows "higherVersions es nextVersion =
     Inr (filter (\<lambda>e. isRecorded e \<and> gt (orEmpty (version e)) nextVersion = Some True) es)"
  using assms
proof (induction es)
  case Nil
  then show ?case by simp
next
  case (Cons e es)
  then have IH: "higherVersions es nextVersion =
     Inr (filter (\<lambda>e. isRecorded e \<and> gt (orEmpty (version e)) nextVersion = Some True) es)"
    by simp
  show ?case
  proof (cases "isRecorded e")
    case False
    then show ?thesis using IH by (auto simp: isRecorded_def)
  next
    case True
    then obtain b where b: "gt (orEmpty (version e)) nextVersion = Some b"
      using Cons.prems by auto
    show ?thesis using True b IH by (auto simp: isRecorded_def)
  qed
qed

lemma higherVersions_invalid_next:
  assumes "parseSemver nextVersion = None"
  shows "higherVersions es nextVersion = Inr [] \<or> (\<exists>m. higherVersions es nextVersion = Inl (Thrown m))"
proof (induction es)
  case Nil
  then show ?case by simp
next
  case (Cons e es)
  have "gt (orEmpty (version e)) nextVersion = None"
    using assms by (simp add: gt_None_iff)
  then show ?case using Cons by (auto simp: invalidVersionError_def)
qed

text \<open>
  Claim C3. For a changelog whose recorded versions are semantic versions (the parser
  records no other), the check of lines 322 to 332 ends the run with the conflict error
  if and only if an entry with a version that is not null and not "unreleased" is
  strictly greater than the next version. The versions the error lists are greater than
  the next version, so an entry whose version is the next version itself is not
  rejected.
\<close>

theorem conflict_iff_higher:
  assumes "\<forall>e\<in>set es. isRecorded e \<longrightarrow> parseSemver (orEmpty (version e)) \<noteq> None"
  shows "((\<exists>vs. checkHigherVersions es nextVersion = Inl (ChangelogVersionConflict vs)) \<longleftrightarrow>
          (\<exists>e\<in>set es. \<exists>v. version e = Some v \<and> v \<noteq> unreleased \<and> gt v nextVersion = Some True)) \<and>
         (\<forall>vs. checkHigherVersions es nextVersion = Inl (ChangelogVersionConflict vs) \<longrightarrow>
               nextVersion \<notin> set vs \<and> (\<forall>v\<in>set vs. gt v nextVersion = Some True))"
proof (cases "parseSemver nextVersion")
  case None
  have no: "\<And>v. gt v nextVersion \<noteq> Some True"
    using None by (simp add: gt_def split: option.splits)
  have "\<And>vs. checkHigherVersions es nextVersion \<noteq> Inl (ChangelogVersionConflict vs)"
    using higherVersions_invalid_next[OF None, of es]
    by (auto simp: checkHigherVersions_def)
  then show ?thesis using no by blast
next
  case (Some y)
  let ?hs = "filter (\<lambda>e. isRecorded e \<and> gt (orEmpty (version e)) nextVersion = Some True) es"
  have "\<forall>e\<in>set es. isRecorded e \<longrightarrow> gt (orEmpty (version e)) nextVersion \<noteq> None"
    using assms Some by (simp add: gt_None_iff)
  then have hv: "higherVersions es nextVersion = Inr ?hs"
    by (rule higherVersions_valid)
  have c: "checkHigherVersions es nextVersion =
      (if ?hs \<noteq> [] then Inl (ChangelogVersionConflict (map (\<lambda>e. orEmpty (version e)) ?hs))
       else Inr ())"
    by (simp add: checkHigherVersions_def hv)
  have rec: "\<And>e. (isRecorded e \<and> gt (orEmpty (version e)) nextVersion = Some True) =
      (\<exists>v. version e = Some v \<and> v \<noteq> unreleased \<and> gt v nextVersion = Some True)"
    by (auto simp: isRecorded_def truthy_def orEmpty_def gt_empty split: option.splits)
  have ne: "(?hs \<noteq> []) =
      (\<exists>e\<in>set es. \<exists>v. version e = Some v \<and> v \<noteq> unreleased \<and> gt v nextVersion = Some True)"
    by (simp add: filter_empty_conv rec)
  have all: "\<forall>v\<in>set (map (\<lambda>e. orEmpty (version e)) ?hs). gt v nextVersion = Some True"
    by auto
  then have notin: "nextVersion \<notin> set (map (\<lambda>e. orEmpty (version e)) ?hs)"
    using gt_irrefl[of nextVersion] by blast
  show ?thesis
  proof (cases "?hs = []")
    case True
    then have r: "checkHigherVersions es nextVersion = Inr ()" by (simp only: c if_False simp_thms)
    have "\<not> (\<exists>e\<in>set es. \<exists>v. version e = Some v \<and> v \<noteq> unreleased \<and> gt v nextVersion = Some True)"
      using ne True by blast
    then show ?thesis unfolding r by blast
  next
    case False
    then have r: "checkHigherVersions es nextVersion =
        Inl (ChangelogVersionConflict (map (\<lambda>e. orEmpty (version e)) ?hs))"
      by (simp only: c if_True simp_thms)
    have ex: "\<exists>e\<in>set es. \<exists>v. version e = Some v \<and> v \<noteq> unreleased \<and> gt v nextVersion = Some True"
      using ne False by blast
    have 1: "\<exists>vs. checkHigherVersions es nextVersion = Inl (ChangelogVersionConflict vs)"
      using r by blast
    have 2: "\<forall>vs. checkHigherVersions es nextVersion = Inl (ChangelogVersionConflict vs) \<longrightarrow>
               nextVersion \<notin> set vs \<and> (\<forall>v\<in>set vs. gt v nextVersion = Some True)"
      using all notin unfolding r by simp
    show ?thesis using ex 1 2 by blast
  qed
qed

lemma recorded_valid:
  "\<forall>e\<in>set recordedEntries. isRecorded e \<longrightarrow> parseSemver (orEmpty (version e)) \<noteq> None"
proof -
  have 1: "parseSemver ''2.0.0'' \<noteq> None" by code_simp
  have 2: "parseSemver ''1.2.0'' \<noteq> None" by code_simp
  show ?thesis using 1 2
    by (simp add: recordedEntries_def isRecorded_def orEmpty_def truthy_def unreleased_def)
qed

lemma recorded_gt: "gt ''2.0.0'' ''1.2.4'' = Some True"
  by code_simp

lemma recorded_not_gt: "gt ''2.0.0'' ''2.0.0'' = Some False \<and> gt ''1.2.0'' ''2.0.0'' = Some False"
  by code_simp

theorem conflict_iff_higher_witness:
  "gt ''2.0.0'' ''1.2.4'' = Some True \<and>
   (\<exists>vs. checkHigherVersions recordedEntries ''1.2.4'' = Inl (ChangelogVersionConflict vs)) \<and>
   gt ''2.0.0'' ''2.0.0'' = Some False \<and> gt ''1.2.0'' ''2.0.0'' = Some False \<and>
   \<not> (\<exists>vs. checkHigherVersions recordedEntries ''2.0.0'' = Inl (ChangelogVersionConflict vs))"
proof -
  note a = conflict_iff_higher[OF recorded_valid, of "''1.2.4''"]
  note b = conflict_iff_higher[OF recorded_valid, of "''2.0.0''"]
  have "\<exists>e\<in>set recordedEntries. \<exists>v. version e = Some v \<and> v \<noteq> unreleased \<and>
      gt v ''1.2.4'' = Some True"
    using recorded_gt by (simp add: recordedEntries_def unreleased_def)
  then have 1: "\<exists>vs. checkHigherVersions recordedEntries ''1.2.4'' = Inl (ChangelogVersionConflict vs)"
    using a by blast
  have "\<not> (\<exists>e\<in>set recordedEntries. \<exists>v. version e = Some v \<and> v \<noteq> unreleased \<and>
      gt v ''2.0.0'' = Some True)"
    using recorded_not_gt by (simp add: recordedEntries_def unreleased_def)
  then have 2: "\<not> (\<exists>vs. checkHigherVersions recordedEntries ''2.0.0'' = Inl (ChangelogVersionConflict vs))"
    using b by blast
  show ?thesis using 1 2 recorded_gt recorded_not_gt by blast
qed

section \<open>The entries of a parsed changelog\<close>

lemma trim_Nil: "trim [] = []"
  by (simp add: trim_def trimStart_def trimEnd_def)

lemma flushEntry_parseLine:
  "map headerVersion (flushEntry (parseLine st l)) =
     map headerVersion (flushEntry st) @ (case headingOf l of None \<Rightarrow> [] | Some p \<Rightarrow> [p])"
proof (cases "headingMatch l")
  case (Some g)
  then show ?thesis
    by (simp add: parseLine_def flushEntry_def headingOf_def headerVersion_def Let_def trim_Nil
        split: prod.splits option.splits)
next
  case None
  then show ?thesis
    by (simp add: parseLine_def flushEntry_def headingOf_def headerVersion_def
        split: option.splits)
qed

lemma map_filter_Cons:
  "List.map_filter f (x # xs) = (case f x of None \<Rightarrow> [] | Some y \<Rightarrow> [y]) @ List.map_filter f xs"
  by (simp add: List.map_filter_def split: option.splits)

lemma loop_headings:
  "map headerVersion (flushEntry (foldl parseLine st ls)) =
     map headerVersion (flushEntry st) @ List.map_filter headingOf ls"
proof (induction ls arbitrary: st)
  case Nil
  then show ?case by (simp add: List.map_filter_def)
next
  case (Cons l ls)
  show ?case
    by (simp only: foldl_Cons Cons.IH flushEntry_parseLine map_filter_Cons append_assoc)
qed

lemma flushEntry_initial: "flushEntry initialState = []"
  by (simp add: flushEntry_def initialState_def)

lemma loopEntries_headings:
  "map headerVersion (loopEntries input) = List.map_filter headingOf (splitLines input)"
  by (simp add: loopEntries_def loop_headings flushEntry_initial)

lemma entries_parseText:
  "entries (parseText input) =
     (if list_ex isUnreleased (loopEntries input) then loopEntries input
      else unreleasedPlaceholder
             (trim (st_description (foldl parseLine initialState (splitLines input)))) #
           loopEntries input)"
  by (simp add: parseText_def promoteDescription_def recoverUnreleased_def loopEntries_def
      Let_def unreleasedPlaceholder_def isUnreleased_def split: prod.splits)

lemma unreleasedPlaceholder_fields:
  "headerVersion (unreleasedPlaceholder c) = (''## [Unreleased]'', Some unreleased) \<and>
   isUnreleased (unreleasedPlaceholder c)"
  by (simp add: headerVersion_def unreleasedPlaceholder_def isUnreleased_def)

lemma list_ex_headerVersion:
  "list_ex (\<lambda>p. snd p = Some unreleased) (map headerVersion es) = list_ex isUnreleased es"
  by (induction es) (auto simp: headerVersion_def isUnreleased_def)

text \<open>
  Claim C2 (as amended). The parsed changelog has at least one unreleased entry. Its
  entries are the entries of the second-level headings, in the order of the headings;
  when no heading is classified "unreleased", one unreleased entry is put before them.
\<close>

theorem unreleased_present_and_order:
  "list_ex isUnreleased (entries (parseText input)) \<and>
   map headerVersion (entries (parseText input)) =
     (if list_ex (\<lambda>p. snd p = Some unreleased) (List.map_filter headingOf (splitLines input))
      then List.map_filter headingOf (splitLines input)
      else (''## [Unreleased]'', Some unreleased) # List.map_filter headingOf (splitLines input))"
proof -
  have h: "list_ex (\<lambda>p. snd p = Some unreleased) (List.map_filter headingOf (splitLines input)) =
      list_ex isUnreleased (loopEntries input)"
    by (simp only: loopEntries_headings[symmetric] list_ex_headerVersion)
  show ?thesis
    by (simp add: h entries_parseText unreleasedPlaceholder_fields loopEntries_headings)
qed

theorem unreleased_present_and_order_witness:
  "map headerVersion (entries (parseText (''## [1.0.0]'' @ [LF] @ ''- Initial release''))) =
     [(''## [Unreleased]'', Some ''unreleased''), (''## [1.0.0]'', Some ''1.0.0'')] \<and>
   map headerVersion (entries (parseText (''## [1.0.0]'' @ [LF] @ ''## Unreleased''))) =
     [(''## [1.0.0]'', Some ''1.0.0''), (''## Unreleased'', Some ''unreleased'')]"
proof -
  have a: "List.map_filter headingOf (splitLines (''## [1.0.0]'' @ [LF] @ ''- Initial release'')) =
      [(''## [1.0.0]'', Some ''1.0.0'')]"
    by code_simp
  have b: "List.map_filter headingOf (splitLines (''## [1.0.0]'' @ [LF] @ ''## Unreleased'')) =
      [(''## [1.0.0]'', Some ''1.0.0''), (''## Unreleased'', Some ''unreleased'')]"
    by code_simp
  show ?thesis
    using unreleased_present_and_order[of "''## [1.0.0]'' @ [LF] @ ''- Initial release''"]
      unreleased_present_and_order[of "''## [1.0.0]'' @ [LF] @ ''## Unreleased''"]
    unfolding a b by (simp add: unreleased_def)
qed

theorem at_most_one_unreleased_counterexample:
  "length (filter isUnreleased
      (entries (parseText (''## Unreleased'' @ [LF] @ ''## [Unreleased]'')))) = 2 \<and>
   map version (entries (parseText (''## [1.0.0]'' @ [LF] @ ''## Unreleased''))) =
     [Some ''1.0.0'', Some ''unreleased'']"
  by code_simp

section \<open>Version tokens in headings\<close>

lemma dropWhile_all: "\<forall>x\<in>set xs. P x \<Longrightarrow> dropWhile P (xs @ ys) = dropWhile P ys"
  by (induction xs) auto

lemma trimEnd_append:
  "b \<noteq> [] \<Longrightarrow> \<not> isSpace (last b) \<Longrightarrow> trimEnd (b @ c) = b @ trimEnd c"
proof -
  assume b: "b \<noteq> []" and l: "\<not> isSpace (last b)"
  have h: "\<not> isSpace (hd (rev b))" using b l by (simp add: hd_rev)
  have r: "rev b \<noteq> []" using b by simp
  have "dropWhile isSpace (rev c @ rev b) = dropWhile isSpace (rev c) @ rev b"
  proof (cases "\<forall>x\<in>set (rev c). isSpace x")
    case True
    then have 1: "dropWhile isSpace (rev c @ rev b) = dropWhile isSpace (rev b)"
      by (rule dropWhile_all)
    have 2: "dropWhile isSpace (rev b) = rev b" using h r by (cases "rev b") auto
    have 3: "dropWhile isSpace (rev c) = []" using True by simp
    show ?thesis by (simp add: 1 2 3)
  next
    case False
    then show ?thesis by (auto simp: dropWhile_append1)
  qed
  then show ?thesis by (simp add: trimEnd_def)
qed

lemma trimEnd_prefix: "\<exists>r. s = trimEnd s @ r"
proof -
  have "rev s = takeWhile isSpace (rev s) @ dropWhile isSpace (rev s)" by simp
  then have "s = rev (dropWhile isSpace (rev s)) @ rev (takeWhile isSpace (rev s))"
    by (metis rev_append rev_rev_ident)
  then show ?thesis by (auto simp: trimEnd_def)
qed

lemma trimEnd_hd: "trimEnd s = [] \<or> hd (trimEnd s) = hd s"
proof -
  obtain r where r: "s = trimEnd s @ r" using trimEnd_prefix by blast
  show ?thesis
  proof (cases "trimEnd s")
    case Nil
    then show ?thesis by simp
  next
    case (Cons a l)
    then have "s = (a # l) @ r" using r by simp
    then have "hd s = a" by simp
    then show ?thesis using Cons by simp
  qed
qed

lemma showNat_Cons: "\<exists>d ds. showNat n = d # ds \<and> isDigit d"
  using showNat_nonempty[of n] showNat_digits[of n] by (cases "showNat n") auto

lemma digitsDot_showNat: "digitsDot (showNat n @ CHR ''.'' # r) = Some (showNat n, r)"
proof -
  have s: "CHR ''.'' # r = [] \<or> \<not> isDigit (hd (CHR ''.'' # r))" by (simp add: isDigit_def)
  have t: "takeWhile isDigit (showNat n @ CHR ''.'' # r) = showNat n"
    using showNat_digits s by (rule takeWhile_stop)
  have d: "dropWhile isDigit (showNat n @ CHR ''.'' # r) = CHR ''.'' # r"
    using showNat_digits s by (rule dropWhile_stop)
  show ?thesis by (simp add: digitsDot_def t d showNat_nonempty)
qed

lemma versionCore_versionText:
  assumes "endsToken r"
  shows "versionCore (versionText x y z @ r) = Some (versionText x y z)"
proof -
  have s: "r = [] \<or> \<not> isDigit (hd r)" using assms by (auto simp: endsToken_def)
  have t: "takeWhile isDigit (showNat z @ r) = showNat z"
    using showNat_digits s by (rule takeWhile_stop)
  have d: "dropWhile isDigit (showNat z @ r) = r"
    using showNat_digits s by (rule dropWhile_stop)
  have v: "versionSuffix r = []"
    using assms by (cases r) (auto simp: versionSuffix_def endsToken_def)
  have e: "versionText x y z @ r =
      showNat x @ CHR ''.'' # (showNat y @ CHR ''.'' # (showNat z @ r))"
    by (simp add: versionText_def)
  show ?thesis
    unfolding e versionCore_def
    by (simp add: digitsDot_showNat t d v showNat_nonempty versionText_def)
qed

lemma versionText_Cons: "\<exists>d ds. versionText x y z = d # ds \<and> isDigit d"
  using showNat_Cons[of x] by (auto simp: versionText_def)

lemma digit_props:
  "isDigit d \<Longrightarrow> \<not> isSpace d \<and> d \<noteq> CHR ''v'' \<and> d \<noteq> CHR ''('' \<and> d \<noteq> CHR ''['' \<and> d \<noteq> CHR ''#''
     \<and> \<not> isLineTerminator d"
  by (auto simp: isDigit_def isSpace_def isLineTerminator_def)

lemma matchVersionHere_styled:
  assumes "(opn = ''['' \<and> cls = '']'') \<or> (opn = ''('' \<and> cls = '')'') \<or> (opn = [] \<and> cls = [])"
    and "vp = [] \<or> vp = ''v''"
    and "r = [] \<or> hd r = CHR '' ''"
  shows "matchVersionHere (opn @ vp @ versionText x y z @ cls @ r) = Some (versionText x y z)"
proof -
  obtain d ds where v: "versionText x y z = d # ds" and dd: "isDigit d"
    using versionText_Cons by blast
  note p = digit_props[OF dd]
  have e: "endsToken (cls @ r)"
    using assms(1,3) by (cases r) (auto simp: endsToken_def isDigit_def)
  have c: "versionCore (d # ds @ cls @ r) = Some (d # ds)"
    using versionCore_versionText[OF e, of x y z] by (simp add: v)
  show ?thesis
    using assms(1,2) p c
    by (auto simp: matchVersionHere_def skipBracket_def stripV_def v isSpace_def)
qed

lemma versionMatch_styled:
  assumes "(opn = ''['' \<and> cls = '']'') \<or> (opn = ''('' \<and> cls = '')'') \<or> (opn = [] \<and> cls = [])"
    and "vp = [] \<or> vp = ''v''"
    and "r = [] \<or> hd r = CHR '' ''"
  shows "versionMatch (opn @ vp @ versionText x y z @ cls @ r) = Some (versionText x y z)"
proof -
  obtain d ds where v: "versionText x y z = d # ds" using versionText_Cons by blast
  then obtain c cs where n: "opn @ vp @ versionText x y z @ cls @ r = c # cs"
    by (cases "opn @ vp @ versionText x y z @ cls @ r") auto
  have "matchVersionHere (c # cs) = Some (versionText x y z)"
    using matchVersionHere_styled[OF assms, of x y z] by (simp only: n)
  then show ?thesis by (simp only: n versionMatch.simps option.case)
qed

lemma valid_versionText: "valid (trim (versionText x y z)) = Some (versionText x y z)"
proof -
  let ?v = "\<lparr>major = x, minor = y, patch = z, prerelease = [], build = []\<rparr>"
  have f: "format ?v = versionText x y z" by (simp add: format_def versionText_def)
  have ns: "list_all (\<lambda>c. \<not> isSpace c) (versionText x y z)"
    using format_no_space[of ?v] by (simp add: f)
  have t: "trim (versionText x y z) = versionText x y z" using ns by (rule trim_no_space)
  have "parseSemver (format ?v) = Some ?v" using parse_format[of ?v] by simp
  then have "valid (format ?v) = Some (format ?v)" by (simp add: valid_def)
  then show ?thesis by (simp only: t f)
qed

lemma terminator_space: "isLineTerminator c \<Longrightarrow> isSpace c"
  by (auto simp: isLineTerminator_def isSpace_def)

lemma versionText_no_space: "list_all (\<lambda>c. \<not> isSpace c) (versionText x y z)"
proof -
  let ?v = "\<lparr>major = x, minor = y, patch = z, prerelease = [], build = []\<rparr>"
  have f: "format ?v = versionText x y z" by (simp add: format_def versionText_def)
  show ?thesis using format_no_space[of ?v] by (simp add: f)
qed

lemma styled_no_space:
  assumes "(opn = ''['' \<and> cls = '']'') \<or> (opn = ''('' \<and> cls = '')'') \<or> (opn = [] \<and> cls = [])"
    and "vp = [] \<or> vp = ''v''"
  shows "list_all (\<lambda>c. \<not> isSpace c) (opn @ vp @ versionText x y z @ cls) \<and>
         opn @ vp @ versionText x y z @ cls \<noteq> []"
proof -
  obtain d ds where v: "versionText x y z = d # ds" using versionText_Cons by blast
  have ne: "opn @ vp @ versionText x y z @ cls \<noteq> []" by (simp add: v)
  show ?thesis using assms versionText_no_space[of x y z] ne
    by (auto simp: isSpace_def)
qed

lemma no_space_ends:
  "list_all (\<lambda>c. \<not> isSpace c) b \<Longrightarrow> b \<noteq> [] \<Longrightarrow> \<not> isSpace (hd b) \<and> \<not> isSpace (last b)"
  by (cases b) (auto simp: list_all_iff)

lemma headingMatch_body:
  assumes "list_all (\<lambda>c. \<not> isSpace c) b" and "b \<noteq> []"
  shows "headingMatch (''## '' @ b @ d) = Some (b @ takeWhile (\<lambda>c. \<not> isLineTerminator c) d)"
proof -
  have h: "\<not> isSpace (hd b)" using no_space_ends[OF assms] by simp
  have dw: "dropWhile isSpace (b @ d) = b @ d" using h assms(2) by (cases b) auto
  have nt: "list_all (\<lambda>c. \<not> isLineTerminator c) b"
    using assms(1) terminator_space by (auto simp: list_all_iff)
  have tw: "takeWhile (\<lambda>c. \<not> isLineTerminator c) (b @ d) = b @ takeWhile (\<lambda>c. \<not> isLineTerminator c) d"
    using nt by (simp add: list_all_iff takeWhile_append2)
  show ?thesis
    by (simp add: headingMatch_def startsWith_def isSpace_def dw tw)
qed

lemma trim_body:
  assumes "list_all (\<lambda>c. \<not> isSpace c) b" and "b \<noteq> []"
  shows "trim (b @ d) = b @ trimEnd d"
proof -
  have h: "\<not> isSpace (hd b)" and l: "\<not> isSpace (last b)"
    using no_space_ends[OF assms] by simp_all
  have dw: "dropWhile isSpace (b @ d) = b @ d" using h assms(2) by (cases b) auto
  show ?thesis by (simp add: trim_def trimStart_def dw trimEnd_append[OF assms(2) l])
qed

lemma date_rest:
  assumes "date = [] \<or> hd date = CHR '' ''"
  shows "trimEnd (takeWhile (\<lambda>c. \<not> isLineTerminator c) date) = [] \<or>
         hd (trimEnd (takeWhile (\<lambda>c. \<not> isLineTerminator c) date)) = CHR '' ''"
proof (cases date)
  case Nil
  then show ?thesis by (simp add: trimEnd_def)
next
  case (Cons c cs)
  then have c: "c = CHR '' ''" using assms by simp
  have "hd (takeWhile (\<lambda>c. \<not> isLineTerminator c) date) = CHR '' ''"
    by (simp add: Cons c isLineTerminator_def)
  then show ?thesis
    using trimEnd_hd[of "takeWhile (\<lambda>c. \<not> isLineTerminator c) date"] by auto
qed

lemma headingOf_styled:
  assumes "(opn = ''['' \<and> cls = '']'') \<or> (opn = ''('' \<and> cls = '')'') \<or> (opn = [] \<and> cls = [])"
    and "vp = [] \<or> vp = ''v''"
    and "date = [] \<or> hd date = CHR '' ''"
    and "line = ''## '' @ opn @ vp @ versionText x y z @ cls @ date"
  shows "\<exists>g. headingMatch line = Some g \<and>
             classifyHeader (trim line) (trim g) = (Some (versionText x y z), [])"
proof -
  let ?b = "opn @ vp @ versionText x y z @ cls"
  let ?d = "takeWhile (\<lambda>c. \<not> isLineTerminator c) date"
  have b: "list_all (\<lambda>c. \<not> isSpace c) ?b" and ne: "?b \<noteq> []"
    using styled_no_space[OF assms(1,2), of x y z] by simp_all
  have l: "line = ''## '' @ ?b @ date" by (simp add: assms(4))
  have hm: "headingMatch line = Some (?b @ ?d)"
    unfolding l using b ne by (rule headingMatch_body)
  have tr: "trim (?b @ ?d) = ?b @ trimEnd ?d" using b ne by (rule trim_body)
  have vm: "versionMatch (opn @ vp @ versionText x y z @ cls @ trimEnd ?d) = Some (versionText x y z)"
    using assms(1,2) date_rest[OF assms(3)] by (rule versionMatch_styled)
  have tr': "trim (opn @ vp @ versionText x y z @ cls @ ?d) =
      opn @ vp @ versionText x y z @ cls @ trimEnd ?d"
    using tr by simp
  have "classifyHeader (trim line) (trim (opn @ vp @ versionText x y z @ cls @ ?d)) =
      (Some (versionText x y z), [])"
    by (simp add: tr' vm classifyHeader_def valid_versionText)
  then show ?thesis using hm by simp
qed

lemma heading_in_entries:
  assumes "line \<in> set (splitLines input)" and "headingOf line = Some (h, v)"
  shows "\<exists>e\<in>set (entries (parseText input)). header e = h \<and> version e = v"
proof -
  have "(h, v) \<in> set (List.map_filter headingOf (splitLines input))"
    using assms by (force simp: List.map_filter_def)
  then have "(h, v) \<in> set (map headerVersion (loopEntries input))"
    by (simp only: loopEntries_headings)
  then obtain e where e: "e \<in> set (loopEntries input)" and hv: "headerVersion e = (h, v)"
    by auto
  have "e \<in> set (entries (parseText input))"
    using e by (simp add: entries_parseText)
  then show ?thesis using hv by (auto simp: headerVersion_def)
qed

text \<open>
  Claim C6. A second-level heading \<open>## \<close> followed by the version \<open>X.Y.Z\<close> in square
  brackets, in parentheses or bare, with or without a leading \<open>v\<close>, and then nothing or a
  space and a date, opens an entry with exactly the version \<open>X.Y.Z\<close> and adds no
  warning; every text with such a line has an entry with that header and version. When
  the token of a heading is not a semantic version, the version of the entry is null
  and the warning about the header is appended.
\<close>

theorem version_token_extracted:
  assumes "(opn = ''['' \<and> cls = '']'') \<or> (opn = ''('' \<and> cls = '')'') \<or> (opn = [] \<and> cls = [])"
    and "vp = [] \<or> vp = ''v''"
    and "date = [] \<or> hd date = CHR '' ''"
    and "line = ''## '' @ opn @ vp @ versionText x y z @ cls @ date"
  shows "(\<exists>e. currentEntry (parseLine st line) = Some e \<and> header e = trim line \<and>
              version e = Some (versionText x y z) \<and>
              st_warnings (parseLine st line) = st_warnings st) \<and>
         (line \<in> set (splitLines input) \<longrightarrow>
            (\<exists>e\<in>set (entries (parseText input)).
                header e = trim line \<and> version e = Some (versionText x y z))) \<and>
         (\<forall>l g tok. headingMatch l = Some g \<and> versionMatch (trim g) = Some tok \<and>
              valid (trim tok) = None \<longrightarrow>
            (\<exists>e. currentEntry (parseLine st l) = Some e \<and> header e = trim l \<and>
                 version e = None \<and>
                 st_warnings (parseLine st l) = st_warnings st @ [invalidHeaderWarning (trim l)]))"
proof -
  obtain g where hm: "headingMatch line = Some g"
    and cl: "classifyHeader (trim line) (trim g) = (Some (versionText x y z), [])"
    using headingOf_styled[OF assms] by blast
  have 1: "\<exists>e. currentEntry (parseLine st line) = Some e \<and> header e = trim line \<and>
              version e = Some (versionText x y z) \<and>
              st_warnings (parseLine st line) = st_warnings st"
    by (simp add: parseLine_def hm cl Let_def)
  have ho: "headingOf line = Some (trim line, Some (versionText x y z))"
    by (simp add: headingOf_def hm cl)
  have 2: "line \<in> set (splitLines input) \<longrightarrow>
            (\<exists>e\<in>set (entries (parseText input)).
                header e = trim line \<and> version e = Some (versionText x y z))"
    using heading_in_entries[OF _ ho] by blast
  have 3: "\<forall>l g tok. headingMatch l = Some g \<and> versionMatch (trim g) = Some tok \<and>
              valid (trim tok) = None \<longrightarrow>
            (\<exists>e. currentEntry (parseLine st l) = Some e \<and> header e = trim l \<and>
                 version e = None \<and>
                 st_warnings (parseLine st l) = st_warnings st @ [invalidHeaderWarning (trim l)])"
    by (simp add: parseLine_def classifyHeader_def Let_def)
  show ?thesis using 1 2 3 by blast
qed

lemma styled_example:
  "''## [1.2.3] - 2024-01-01'' = ''## '' @ ''['' @ [] @ versionText 1 2 3 @ '']'' @ '' - 2024-01-01''"
  by code_simp

lemma styled_example_lines:
  "''## [1.2.3] - 2024-01-01'' \<in> set (splitLines (''# Changelog'' @ [LF] @ ''## [1.2.3] - 2024-01-01''))"
  by code_simp

lemma styled_example_text: "versionText 1 2 3 = ''1.2.3''"
  by code_simp

lemma invalid_example:
  "headingMatch ''## 1.2.3.4'' = Some ''1.2.3.4'' \<and> versionMatch (trim ''1.2.3.4'') = Some ''1.2.3.4'' \<and>
   valid (trim ''1.2.3.4'') = None"
  by code_simp

theorem version_token_extracted_witness:
  "(\<exists>e. currentEntry (parseLine initialState ''## [1.2.3] - 2024-01-01'') = Some e \<and>
        header e = trim ''## [1.2.3] - 2024-01-01'' \<and> version e = Some ''1.2.3'') \<and>
   (\<exists>e\<in>set (entries (parseText (''# Changelog'' @ [LF] @ ''## [1.2.3] - 2024-01-01''))).
        header e = trim ''## [1.2.3] - 2024-01-01'' \<and> version e = Some ''1.2.3'') \<and>
   headingMatch ''## 1.2.3.4'' = Some ''1.2.3.4'' \<and>
   versionMatch (trim ''1.2.3.4'') = Some ''1.2.3.4'' \<and> valid (trim ''1.2.3.4'') = None \<and>
   (\<exists>e. currentEntry (parseLine initialState ''## 1.2.3.4'') = Some e \<and> version e = None \<and>
        st_warnings (parseLine initialState ''## 1.2.3.4'') =
          st_warnings initialState @ [invalidHeaderWarning (trim ''## 1.2.3.4'')])"
proof -
  note t = version_token_extracted[where opn = "''[''" and cls = "'']''" and vp = "[]"
      and date = "'' - 2024-01-01''" and x = 1 and y = 2 and z = 3
      and line = "''## [1.2.3] - 2024-01-01''" and st = initialState
      and input = "''# Changelog'' @ [LF] @ ''## [1.2.3] - 2024-01-01''",
      OF _ _ _ styled_example, unfolded styled_example_text]
  have a: "(\<exists>e. currentEntry (parseLine initialState ''## [1.2.3] - 2024-01-01'') = Some e \<and>
        header e = trim ''## [1.2.3] - 2024-01-01'' \<and> version e = Some ''1.2.3'')"
    using t by auto
  have b: "(\<exists>e\<in>set (entries (parseText (''# Changelog'' @ [LF] @ ''## [1.2.3] - 2024-01-01''))).
        header e = trim ''## [1.2.3] - 2024-01-01'' \<and> version e = Some ''1.2.3'')"
    using t styled_example_lines by auto
  have c: "(\<exists>e. currentEntry (parseLine initialState ''## 1.2.3.4'') = Some e \<and> version e = None \<and>
        st_warnings (parseLine initialState ''## 1.2.3.4'') =
          st_warnings initialState @ [invalidHeaderWarning (trim ''## 1.2.3.4'')])"
    using t invalid_example by auto
  show ?thesis using a b c invalid_example by blast
qed

section \<open>Version bumps\<close>

lemma acceptVersion_format:
  "acceptVersion a (Some (format u)) = Inr (bratNormalize (format u))"
  using format_hd_digit[of u] by (simp add: acceptVersion_def truthy_def orEmpty_def)

lemma removeDot_pass: "\<not> isDigit c \<Longrightarrow> removeDot (xs @ c # ys) = xs @ removeDot (c # ys)"
proof (induction xs)
  case Nil
  then show ?case by simp
next
  case (Cons x xs)
  then have "\<not> isDigits (xs @ c # ys)" by (simp add: isDigits_def)
  with Cons show ?case by simp
qed

lemma removeDot_no_dot: "CHR ''.'' \<notin> set s \<Longrightarrow> removeDot s = s"
  by (induction s) auto

lemma bratNormalize_release:
  assumes "prerelease u = []"
  shows "bratNormalize (format u) = format u"
  using parse_format[of u] assms by (simp add: bratNormalize_def prereleaseOf_def)

lemma bratNormalize_zero:
  assumes "prerelease u = [Num 0]"
  shows "bratNormalize (format u) = format u"
proof -
  have f: "format u = coreString u @ CHR ''-'' # showNat 0"
    using assms by (simp add: format_alt)
  have "removeDot (coreString u @ CHR ''-'' # showNat 0) = coreString u @ removeDot (CHR ''-'' # showNat 0)"
    by (rule removeDot_pass) (simp add: isDigit_def)
  also have "\<dots> = coreString u @ CHR ''-'' # showNat 0"
    by (simp add: removeDot_no_dot[OF showNat_no_dot])
  finally show ?thesis by (simp add: bratNormalize_def f)
qed

lemma wfIdent_append_digits: "wfIdent (Alnum i) \<Longrightarrow> wfIdent (Alnum (i @ showNat n))"
  using showNat_digits[of n] by (auto simp: list_all_iff digit_idChar)

lemma bratNormalize_identifier:
  assumes "prerelease u = [Alnum i, Num 0]" and "wfIdent (Alnum i)"
  shows "bratNormalize (format u) = format (u\<lparr>prerelease := [Alnum (i @ showNat 0)]\<rparr>)"
proof -
  have wf: "list_all wfIdent (prerelease u)" using assms by simp
  have p: "prereleaseOf (format u) \<noteq> None"
    using prereleaseOf_format[OF wf] assms(1) by simp
  have m: "format u = (coreString u @ ''-'' @ joinWith ''.'' (map showIdent ([] @ [Alnum i]))) @
      CHR ''.'' # showNat 0"
    by (rule format_merge) (simp add: assms(1))
  have "removeDot (format u) =
      (coreString u @ ''-'' @ joinWith ''.'' (map showIdent ([] @ [Alnum i]))) @ showNat 0"
    unfolding m by (rule removeDot_last[OF isDigits_showNat])
  then show ?thesis using p by (simp add: bratNormalize_def format_alt coreString_def)
qed

lemma accept_fresh:
  assumes "prerelease u = [] \<or> prerelease u = [Num 0] \<or>
           (\<exists>i. prerelease u = [Alnum i, Num 0] \<and> wfIdent (Alnum i))"
  shows "\<exists>n. acceptVersion a (Some (format u)) = Inr n \<and> parseSemver n = Some (normalized u)"
proof -
  consider (r) "prerelease u = []" | (z) "prerelease u = [Num 0]"
    | (i) i where "prerelease u = [Alnum i, Num 0]" "wfIdent (Alnum i)"
    using assms by blast
  then show ?thesis
  proof cases
    case r
    have "parseSemver (format u) = Some (normalized u)"
      using parse_format[of u] r by (simp add: normalized_def)
    then show ?thesis by (simp add: acceptVersion_format bratNormalize_release[OF r])
  next
    case z
    have "parseSemver (format u) = Some (normalized u)"
      using parse_format[of u] z by (simp add: normalized_def)
    then show ?thesis by (simp add: acceptVersion_format bratNormalize_zero[OF z])
  next
    case i
    let ?u = "u\<lparr>prerelease := [Alnum (i @ showNat 0)]\<rparr>"
    have "list_all wfIdent (prerelease ?u)" using wfIdent_append_digits[OF i(2), of 0] by simp
    then have "parseSemver (format ?u) = Some (normalized u)"
      using parse_format[of ?u] i(1) by (simp add: normalized_def)
    then show ?thesis by (simp add: acceptVersion_format bratNormalize_identifier[OF i])
  qed
qed

lemma applyIdentifier_zero:
  assumes "plainIdentifier identifier"
  shows "applyIdentifier identifier [Num 0] = [Num 0] \<or>
         (\<exists>i. applyIdentifier identifier [Num 0] = [Alnum i, Num 0] \<and> wfIdent (Alnum i))"
  using assms by (auto simp: plainIdentifier_def applyIdentifier_def split: option.splits)

lemma incPre_fresh:
  assumes "plainIdentifier identifier" and "prerelease u = []"
  shows "prerelease (incPre identifier u) = [Num 0] \<or>
         (\<exists>i. prerelease (incPre identifier u) = [Alnum i, Num 0] \<and> wfIdent (Alnum i))"
  using applyIdentifier_zero[OF assms(1)] assms(2) by (simp add: incPre_def bumpPre_def)

lemma incRelease_fresh:
  assumes "releaseType \<noteq> Prerelease \<or> prerelease v = []"
    and "\<not> startsWithPre releaseType \<or> plainIdentifier identifier"
  shows "prerelease (incRelease releaseType identifier v) = [] \<or>
         prerelease (incRelease releaseType identifier v) = [Num 0] \<or>
         (\<exists>i. prerelease (incRelease releaseType identifier v) = [Alnum i, Num 0] \<and> wfIdent (Alnum i))"
proof (cases releaseType)
  case Major
  then show ?thesis by simp
next
  case Minor
  then show ?thesis by simp
next
  case Patch
  then show ?thesis by (simp add: incPatch_def)
next
  case Premajor
  then have "plainIdentifier identifier" using assms(2) by simp
  then show ?thesis using Premajor incPre_fresh by simp
next
  case Preminor
  then have "plainIdentifier identifier" using assms(2) by simp
  then show ?thesis using Preminor incPre_fresh by simp
next
  case Prepatch
  then have "plainIdentifier identifier" using assms(2) by simp
  then show ?thesis using Prepatch incPre_fresh by (simp add: incPatch_def)
next
  case Prerelease
  then have "prerelease v = []" and "plainIdentifier identifier" using assms by simp_all
  then show ?thesis using Prerelease incPre_fresh by (simp add: incPatch_def)
qed

lemma normalized_fields:
  "major (normalized u) = major u \<and> minor (normalized u) = minor u \<and>
   patch (normalized u) = patch u \<and> (prerelease (normalized u) = []) = (prerelease u = [])"
  by (simp add: normalized_def split: list.splits ident.splits)

lemma compare_fields:
  "compare a b =
     (if major a < major b then LT else if major b < major a then GT
      else if minor a < minor b then LT else if minor b < minor a then GT
      else if patch a < patch b then LT else if patch b < patch a then GT
      else comparePre a b)"
  by (simp add: compare_def compareMain_def compareNat_def)

lemma incFirstNum_length: "incFirstNum xs = Some r \<Longrightarrow> length r = length xs"
  by (induction xs arbitrary: r rule: incFirstNum.induct) auto

lemma bumpPre_nonempty: "bumpPre pre \<noteq> []"
proof (cases "incFirstNum (rev pre)")
  case None
  then show ?thesis by (simp add: bumpPre_def)
next
  case (Some r)
  then have "length r = length pre" using incFirstNum_length[OF Some] by simp
  then show ?thesis using Some by (auto simp: bumpPre_def)
qed

lemma applyIdentifier_nonempty: "pre \<noteq> [] \<Longrightarrow> applyIdentifier i pre \<noteq> []"
  by (auto simp: applyIdentifier_def split: option.splits)

lemma incPre_fields:
  "major (incPre i u) = major u \<and> minor (incPre i u) = minor u \<and> patch (incPre i u) = patch u \<and>
   prerelease (incPre i u) \<noteq> []"
  by (simp add: incPre_def applyIdentifier_nonempty[OF bumpPre_nonempty])

lemma incRelease_greater:
  assumes "releaseType \<noteq> Prerelease \<or> prerelease v = []"
  shows "compare (normalized (incRelease releaseType identifier v)) v = GT"
proof (cases releaseType)
  case Major
  then show ?thesis
    by (simp add: compare_fields normalized_fields comparePre_def)
next
  case Minor
  then show ?thesis
    by (simp add: compare_fields normalized_fields comparePre_def)
next
  case Patch
  then show ?thesis
    by (simp add: compare_fields normalized_fields comparePre_def incPatch_def)
next
  case Premajor
  then show ?thesis by (simp add: compare_fields normalized_fields incPre_fields)
next
  case Preminor
  then show ?thesis by (simp add: compare_fields normalized_fields incPre_fields)
next
  case Prepatch
  then show ?thesis by (simp add: compare_fields normalized_fields incPre_fields incPatch_def)
next
  case Prerelease
  then have "prerelease v = []" using assms by simp
  then show ?thesis using Prerelease
    by (simp add: compare_fields normalized_fields incPre_fields incPatch_def)
qed

section \<open>The writer keeps the released entries\<close>





lemma trimEnd_Nil: "trimEnd [] = []"
  by (simp add: trimEnd_def)

























section \<open>The versions in a parsed changelog\<close>

text \<open>
  The versions that the parser records, and that the release script keeps, are semantic
  versions: what the check of the higher versions asks of the entries holds for every
  changelog that comes from the parser.
\<close>

lemma parseIdent_wf: "parseIdent s = Some i \<Longrightarrow> wfIdent i"
  by (auto simp: parseIdent_def split: if_splits)

lemma those_wf:
  "those (map parseIdent xs) = Some pre \<Longrightarrow> list_all wfIdent pre"
proof (induction xs arbitrary: pre)
  case Nil
  then show ?case by simp
next
  case (Cons x xs)
  then show ?case
    by (auto simp: parseIdent_wf split: option.splits)
qed

lemma parseTail_wf: "parseTail r = Some (pre, b) \<Longrightarrow> list_all wfIdent pre"
  by (auto simp: parseTail_def parsePrerelease_def those_wf split: list.splits if_splits option.splits)

lemma parseSemver_wf: "parseSemver s = Some v \<Longrightarrow> list_all wfIdent (prerelease v)"
  by (auto simp: parseSemver_def Let_def parseTail_wf split: option.splits prod.splits)

lemma valid_parses: "valid s = Some r \<Longrightarrow> parseSemver r \<noteq> None"
proof -
  assume "valid s = Some r"
  then obtain v where v: "parseSemver s = Some v" and r: "r = format v"
    by (auto simp: valid_def)
  show ?thesis using parse_format[OF parseSemver_wf[OF v]] by (simp add: r)
qed

lemma classifyHeader_version:
  "fst (classifyHeader h t) = Some r \<Longrightarrow> r = unreleased \<or> parseSemver r \<noteq> None"
  by (auto simp: classifyHeader_def valid_parses split: option.splits if_splits)

lemma headingOf_version:
  "headingOf l = Some (h, Some r) \<Longrightarrow> r = unreleased \<or> parseSemver r \<noteq> None"
  using classifyHeader_version by (auto simp: headingOf_def split: option.splits)

lemma loopEntries_versions:
  assumes "e \<in> set (loopEntries input)" and "version e = Some r"
  shows "r = unreleased \<or> parseSemver r \<noteq> None"
proof -
  have "headerVersion e \<in> set (List.map_filter headingOf (splitLines input))"
    using assms(1) loopEntries_headings[of input] by (metis image_eqI set_map)
  then obtain l where "headingOf l = Some (header e, Some r)"
    using assms(2) by (auto simp: List.map_filter_def headerVersion_def)
  then show ?thesis by (rule headingOf_version)
qed

lemma parsed_versions_valid:
  "\<forall>e\<in>set (entries (parseText input)). isRecorded e \<longrightarrow> parseSemver (orEmpty (version e)) \<noteq> None"
proof
  fix e
  assume e: "e \<in> set (entries (parseText input))"
  show "isRecorded e \<longrightarrow> parseSemver (orEmpty (version e)) \<noteq> None"
  proof
    assume r: "isRecorded e"
    then obtain v where v: "version e = Some v" and nu: "v \<noteq> unreleased"
      by (auto simp: isRecorded_def truthy_def split: option.splits)
    have "e \<in> set (loopEntries input)"
      using e r by (auto simp: entries_parseText isRecorded_def unreleasedPlaceholder_def
          split: if_splits)
    then have "v = unreleased \<or> parseSemver v \<noteq> None" using v by (rule loopEntries_versions)
    then show "parseSemver (orEmpty (version e)) \<noteq> None" using nu v by (simp add: orEmpty_def)
  qed
qed

lemma set_updateFirst_versions:
  "e \<in> set (updateFirst P (\<lambda>e. e\<lparr>content := c\<rparr>) xs) \<Longrightarrow> \<exists>e'\<in>set xs. version e' = version e"
  by (induction xs) (auto split: if_splits)

lemma ensured_versions_valid:
  assumes "ensureReleasable s (parseText input) = (evs, Inr p)"
  shows "\<forall>e\<in>set (entries p). isRecorded e \<longrightarrow> parseSemver (orEmpty (version e)) \<noteq> None"
proof -
  have "\<forall>e\<in>set (entries p). isRecorded e \<longrightarrow> (\<exists>e'\<in>set (entries (parseText input)). version e' = version e)"
    using assms set_updateFirst_versions
    by (fastforce simp: ensureReleasable_def fillPlaceholder_def isRecorded_def
        unreleasedPlaceholder_def split: option.splits if_splits)
  then show ?thesis using parsed_versions_valid[of input]
    by (metis isRecorded_def)
qed

section \<open>The warnings and the unreleased entries, from the lines\<close>

lemma parseLine_warnings_exact:
  "st_warnings (parseLine st l) =
     st_warnings st @ (if malformedHeading l then [invalidHeaderWarning (trim l)] else [])"
  by (simp add: parseLine_def classifyHeader_def malformedHeading_def Let_def
      split: option.splits)

lemma loop_warnings_exact:
  "st_warnings (foldl parseLine st ls) =
     st_warnings st @ map (\<lambda>l. invalidHeaderWarning (trim l)) (filter malformedHeading ls)"
proof (induction ls arbitrary: st)
  case Nil
  then show ?case by simp
next
  case (Cons l ls)
  show ?case by (simp add: Cons.IH parseLine_warnings_exact)
qed

lemma parseLine_open:
  "currentEntry st \<noteq> None \<Longrightarrow>
     currentEntry (parseLine st l) \<noteq> None \<and> st_description (parseLine st l) = st_description st"
  by (auto simp: parseLine_def Let_def split: option.splits prod.splits)

lemma loop_description_open:
  "currentEntry st \<noteq> None \<Longrightarrow> st_description (foldl parseLine st ls) = st_description st"
proof (induction ls arbitrary: st)
  case Nil
  then show ?case by simp
next
  case (Cons l ls)
  have "st_description (foldl parseLine (parseLine st l) ls) = st_description (parseLine st l)"
    using parseLine_open[OF Cons.prems] by (intro Cons.IH) simp
  then show ?case using parseLine_open[OF Cons.prems] by simp
qed

lemma loop_description:
  "currentEntry st = None \<Longrightarrow> \<not> firstHeaderFound st \<Longrightarrow>
     st_description (foldl parseLine st ls) = st_description st @ preamble ls"
proof (induction ls arbitrary: st)
  case Nil
  then show ?case by (simp add: preamble_def)
next
  case (Cons l ls)
  show ?case
  proof (cases "headingMatch l")
    case None
    have c: "currentEntry (parseLine st l) = None" and f: "\<not> firstHeaderFound (parseLine st l)"
      using Cons.prems None by (simp_all add: parseLine_def)
    have d: "st_description (parseLine st l) =
        st_description st @ (if startsWith l ''# '' then [] else l @ [LF])"
      using Cons.prems None by (simp add: parseLine_def)
    have p: "preamble (l # ls) = (if startsWith l ''# '' then [] else l @ [LF]) @ preamble ls"
      using None by (simp add: preamble_def)
    show ?thesis by (simp only: foldl_Cons Cons.IH[OF c f] d p append_assoc)
  next
    case (Some g)
    have c: "currentEntry (parseLine st l) \<noteq> None"
      using Some by (simp add: parseLine_def Let_def split: prod.splits)
    have d: "st_description (parseLine st l) = st_description st"
      using Some by (simp add: parseLine_def Let_def split: prod.splits)
    have p: "preamble (l # ls) = []" using Some by (simp add: preamble_def)
    show ?thesis by (simp only: foldl_Cons loop_description_open[OF c] d p append_Nil2)
  qed
qed

lemma description_preamble:
  "st_description (foldl parseLine initialState (splitLines input)) = preamble (splitLines input)"
  using loop_description[of initialState "splitLines input"] by (simp add: initialState_def)

lemma headingOf_unreleased:
  "(case headingOf l of None \<Rightarrow> False | Some p \<Rightarrow> snd p = Some unreleased) = unreleasedHeading l"
  using valid_not_unreleased
  by (auto simp: headingOf_def classifyHeader_def unreleasedHeading_def split: option.splits)

lemma headings_unreleased:
  "list_ex (\<lambda>p. snd p = Some unreleased) (List.map_filter headingOf ls) = list_ex unreleasedHeading ls"
proof (induction ls)
  case Nil
  then show ?case by (simp add: List.map_filter_def)
next
  case (Cons l ls)
  show ?case using headingOf_unreleased[of l]
    by (cases "headingOf l") (simp_all add: map_filter_Cons Cons.IH)
qed

lemma loopEntries_unreleased:
  "list_ex isUnreleased (loopEntries input) = list_ex unreleasedHeading (splitLines input)"
  by (simp only: list_ex_headerVersion[symmetric] loopEntries_headings headings_unreleased)

lemma warnEmptyUnreleased_alt:
  "warnEmptyUnreleased es ws =
     ws @ (if (case find isUnreleased es of None \<Rightarrow> False | Some u \<Rightarrow> trim (content u) = [])
           then [emptyUnreleasedWarning] else [])"
  by (simp add: warnEmptyUnreleased_def split: option.splits)

lemma warnings_parseText_exact:
  "warnings (parseText input) =
     warnEmptyUnreleased (entries (parseText input))
       (st_warnings (foldl parseLine initialState (splitLines input)) @
        (if \<not> list_ex isUnreleased (loopEntries input) \<and>
            trim (st_description (foldl parseLine initialState (splitLines input))) = []
         then [missingUnreleasedWarning] else []))"
  by (simp add: parseText_def promoteDescription_def recoverUnreleased_def loopEntries_def
      Let_def unreleasedPlaceholder_def isUnreleased_def split: prod.splits)

lemma parsed_warnings:
  "warnings (parseText input) =
     map (\<lambda>l. invalidHeaderWarning (trim l)) (filter malformedHeading (splitLines input)) @
     (if \<not> list_ex unreleasedHeading (splitLines input) \<and> trim (preamble (splitLines input)) = []
      then [missingUnreleasedWarning] else []) @
     (if (case find isUnreleased (entries (parseText input)) of
            None \<Rightarrow> False | Some u \<Rightarrow> trim (content u) = [])
      then [emptyUnreleasedWarning] else [])"
proof -
  have w: "st_warnings (foldl parseLine initialState (splitLines input)) =
      map (\<lambda>l. invalidHeaderWarning (trim l)) (filter malformedHeading (splitLines input))"
    by (simp add: loop_warnings_exact initialState_def)
  show ?thesis
    by (simp only: warnings_parseText_exact warnEmptyUnreleased_alt w description_preamble
        loopEntries_unreleased append_assoc)
qed

lemma parsed_entries:
  "entries (parseText input) =
     (if list_ex unreleasedHeading (splitLines input) then loopEntries input
      else unreleasedPlaceholder (trim (preamble (splitLines input))) # loopEntries input)"
  by (simp only: entries_parseText loopEntries_unreleased description_preamble)

lemma headings_headers:
  "map fst (List.map_filter headingOf ls) = map trim (filter (\<lambda>l. headingMatch l \<noteq> None) ls)"
proof (induction ls)
  case Nil
  then show ?case by (simp add: List.map_filter_def)
next
  case (Cons l ls)
  show ?case using Cons.IH
    by (cases "headingMatch l") (simp_all add: map_filter_Cons headingOf_def)
qed

lemma loopEntries_headers:
  "map header (loopEntries input) =
     map trim (filter (\<lambda>l. headingMatch l \<noteq> None) (splitLines input))"
proof -
  have "map header (loopEntries input) = map fst (map headerVersion (loopEntries input))"
    by (simp add: headerVersion_def)
  then show ?thesis by (simp only: loopEntries_headings headings_headers)
qed

text \<open>
  Claim C5. On every text the parser returns a parsed changelog; nothing in it throws.
  What is malformed in the text shows in the warnings and only there. The warnings are
  exactly: one warning about the header for each heading whose version token is not a
  semantic version, in the order of the lines; then the warning about the missing
  unreleased section, when no heading is classified unreleased and nothing but white
  space stands before the first heading, the title lines apart; then the warning about
  the empty unreleased section, when the content of the first unreleased entry is empty. Every heading of the text, malformed
  or not, still has its entry, after the unreleased entry that is created when no
  heading is classified unreleased.
\<close>

theorem parser_never_throws:
  "\<exists>p. parseChangelog (Some input) = Inr p \<and>
     warnings p =
       map (\<lambda>l. invalidHeaderWarning (trim l)) (filter malformedHeading (splitLines input)) @
       (if \<not> list_ex unreleasedHeading (splitLines input) \<and> trim (preamble (splitLines input)) = []
        then [missingUnreleasedWarning] else []) @
       (if (case find isUnreleased (entries p) of None \<Rightarrow> False | Some u \<Rightarrow> trim (content u) = [])
        then [emptyUnreleasedWarning] else []) \<and>
     map header (entries p) =
       (if list_ex unreleasedHeading (splitLines input) then [] else [''## [Unreleased]'']) @
       map trim (filter (\<lambda>l. headingMatch l \<noteq> None) (splitLines input))"
proof -
  have e: "map header (entries (parseText input)) =
       (if list_ex unreleasedHeading (splitLines input) then [] else [''## [Unreleased]'']) @
       map trim (filter (\<lambda>l. headingMatch l \<noteq> None) (splitLines input))"
    by (simp add: parsed_entries loopEntries_headers unreleasedPlaceholder_def)
  show ?thesis
    using parsed_warnings[of input] e by (simp only: parseChangelog_def option.case) blast
qed

lemma malformed_split:
  "splitLines (''## 1.2.3.4'' @ [LF] @ ''### sub'') = [''## 1.2.3.4'', ''### sub'']"
  by code_simp

lemma malformed_lines:
  "filter malformedHeading [''## 1.2.3.4'', ''### sub''] = [''## 1.2.3.4'']"
  "list_ex unreleasedHeading [''## 1.2.3.4'', ''### sub''] = False"
  "trim (preamble [''## 1.2.3.4'', ''### sub'']) = []"
  "filter (\<lambda>l. headingMatch l \<noteq> None) [''## 1.2.3.4'', ''### sub''] = [''## 1.2.3.4'']"
  "trim ''## 1.2.3.4'' = ''## 1.2.3.4''"
  by code_simp+

lemma malformed_parsed:
  "parseText (''## 1.2.3.4'' @ [LF] @ ''### sub'') =
     \<lparr>title = ''Changelog'', description = [],
      entries = [\<lparr>version = Some ''unreleased'', header = ''## [Unreleased]'', content = []\<rparr>,
                 \<lparr>version = None, header = ''## 1.2.3.4'', content = ''### sub''\<rparr>],
      warnings = [''CHANGELOG.md: Header \"## 1.2.3.4\" does not contain a valid SemVer identifier.'',
                  ''CHANGELOG.md: Missing [Unreleased] section; creating an empty placeholder.'',
                  ''CHANGELOG.md: Unreleased section is empty.'']\<rparr>"
  by code_simp

theorem parser_never_throws_witness:
  "\<exists>p. parseChangelog (Some (''## 1.2.3.4'' @ [LF] @ ''### sub'')) = Inr p \<and>
     warnings p = [invalidHeaderWarning ''## 1.2.3.4'', missingUnreleasedWarning, emptyUnreleasedWarning] \<and>
     warnings p =
       [''CHANGELOG.md: Header \"## 1.2.3.4\" does not contain a valid SemVer identifier.'',
        ''CHANGELOG.md: Missing [Unreleased] section; creating an empty placeholder.'',
        ''CHANGELOG.md: Unreleased section is empty.''] \<and>
     map header (entries p) = [''## [Unreleased]'', ''## 1.2.3.4'']"
proof -
  obtain p where p: "parseChangelog (Some (''## 1.2.3.4'' @ [LF] @ ''### sub'')) = Inr p"
    and w: "warnings p =
       map (\<lambda>l. invalidHeaderWarning (trim l))
         (filter malformedHeading (splitLines (''## 1.2.3.4'' @ [LF] @ ''### sub''))) @
       (if \<not> list_ex unreleasedHeading (splitLines (''## 1.2.3.4'' @ [LF] @ ''### sub'')) \<and>
           trim (preamble (splitLines (''## 1.2.3.4'' @ [LF] @ ''### sub''))) = []
        then [missingUnreleasedWarning] else []) @
       (if (case find isUnreleased (entries p) of None \<Rightarrow> False | Some u \<Rightarrow> trim (content u) = [])
        then [emptyUnreleasedWarning] else [])"
    and h: "map header (entries p) =
       (if list_ex unreleasedHeading (splitLines (''## 1.2.3.4'' @ [LF] @ ''### sub'')) then []
        else [''## [Unreleased]'']) @
       map trim (filter (\<lambda>l. headingMatch l \<noteq> None) (splitLines (''## 1.2.3.4'' @ [LF] @ ''### sub'')))"
    using parser_never_throws[of "''## 1.2.3.4'' @ [LF] @ ''### sub''"] by blast
  have pp: "p = parseText (''## 1.2.3.4'' @ [LF] @ ''### sub'')"
    using p by (simp add: parseChangelog_def)
  have u: "(case find isUnreleased (entries p) of None \<Rightarrow> False | Some u \<Rightarrow> trim (content u) = [])"
    unfolding pp malformed_parsed by code_simp
  have w1: "warnings p =
      [invalidHeaderWarning ''## 1.2.3.4'', missingUnreleasedWarning, emptyUnreleasedWarning]"
    using w u unfolding malformed_split malformed_lines by (simp add: malformed_lines(5))
  have w2: "warnings p =
       [''CHANGELOG.md: Header \"## 1.2.3.4\" does not contain a valid SemVer identifier.'',
        ''CHANGELOG.md: Missing [Unreleased] section; creating an empty placeholder.'',
        ''CHANGELOG.md: Unreleased section is empty.'']"
    unfolding pp malformed_parsed by simp
  have h1: "map header (entries p) = [''## [Unreleased]'', ''## 1.2.3.4'']"
    using h unfolding malformed_split malformed_lines by (simp add: malformed_lines(5))
  show ?thesis by (intro exI[of _ p] conjI p w1 w2 h1)
qed

lemma map_filter_mem: "y \<in> set (List.map_filter f xs) \<Longrightarrow> \<exists>x\<in>set xs. f x = Some y"
  by (auto simp: List.map_filter_def)

text \<open>
  Claim C10. The version token of a heading has priority over the word "unreleased". For
  every second-level heading of the text whose text has a version-shaped token, the
  parsed changelog has an entry with that heading as its header whose version is what
  \<open>valid\<close> makes of the token: a semantic version, or null, and then the warnings have
  the warning about the header. That entry is not an unreleased one. An entry of the
  parsed changelog is unreleased only when it comes from a heading with no version-shaped
  token that contains "unreleased" in any case, or when it is the entry created because
  there is no such heading. So a heading with a valid version and the word "unreleased"
  is recorded as a released entry.
\<close>

theorem heading_version_priority:
  "(\<forall>line\<in>set (splitLines input). \<forall>g tok.
      headingMatch line = Some g \<and> versionMatch (trim g) = Some tok \<longrightarrow>
        (\<exists>e\<in>set (entries (parseText input)).
            header e = trim line \<and> version e = valid (trim tok) \<and> \<not> isUnreleased e) \<and>
        (valid (trim tok) = None \<longrightarrow>
            invalidHeaderWarning (trim line) \<in> set (warnings (parseText input)))) \<and>
   (\<forall>e\<in>set (entries (parseText input)). isUnreleased e \<longrightarrow>
      (\<exists>line\<in>set (splitLines input). unreleasedHeading line \<and> header e = trim line) \<or>
      (\<not> list_ex unreleasedHeading (splitLines input) \<and>
       e = unreleasedPlaceholder (trim (preamble (splitLines input)))))"
proof (rule conjI)
  show "\<forall>line\<in>set (splitLines input). \<forall>g tok.
      headingMatch line = Some g \<and> versionMatch (trim g) = Some tok \<longrightarrow>
        (\<exists>e\<in>set (entries (parseText input)).
            header e = trim line \<and> version e = valid (trim tok) \<and> \<not> isUnreleased e) \<and>
        (valid (trim tok) = None \<longrightarrow>
            invalidHeaderWarning (trim line) \<in> set (warnings (parseText input)))"
  proof (intro ballI allI impI)
    fix line g tok
    assume l: "line \<in> set (splitLines input)"
      and h: "headingMatch line = Some g \<and> versionMatch (trim g) = Some tok"
    have ho: "headingOf line = Some (trim line, valid (trim tok))"
      using h by (simp add: headingOf_def classifyHeader_def split: option.splits)
    obtain e where e: "e \<in> set (entries (parseText input))"
      and he: "header e = trim line" and ve: "version e = valid (trim tok)"
      using heading_in_entries[OF l ho] by blast
    have nu: "\<not> isUnreleased e"
      using ve valid_not_unreleased[of "trim tok"] by (simp add: isUnreleased_def)
    have w: "valid (trim tok) = None \<longrightarrow>
        invalidHeaderWarning (trim line) \<in> set (warnings (parseText input))"
    proof
      assume "valid (trim tok) = None"
      then have "malformedHeading line" using h by (simp add: malformedHeading_def)
      then have "invalidHeaderWarning (trim line) \<in>
          set (map (\<lambda>l. invalidHeaderWarning (trim l)) (filter malformedHeading (splitLines input)))"
        using l by auto
      then show "invalidHeaderWarning (trim line) \<in> set (warnings (parseText input))"
        by (subst parsed_warnings) simp
    qed
    show "(\<exists>e\<in>set (entries (parseText input)).
            header e = trim line \<and> version e = valid (trim tok) \<and> \<not> isUnreleased e) \<and>
        (valid (trim tok) = None \<longrightarrow>
            invalidHeaderWarning (trim line) \<in> set (warnings (parseText input)))"
    proof (rule conjI)
      show "\<exists>e\<in>set (entries (parseText input)).
            header e = trim line \<and> version e = valid (trim tok) \<and> \<not> isUnreleased e"
        using e he ve nu by (intro bexI[of _ e] conjI)
      show "valid (trim tok) = None \<longrightarrow>
            invalidHeaderWarning (trim line) \<in> set (warnings (parseText input))"
        by (rule w)
    qed
  qed
next
  show "\<forall>e\<in>set (entries (parseText input)). isUnreleased e \<longrightarrow>
      (\<exists>line\<in>set (splitLines input). unreleasedHeading line \<and> header e = trim line) \<or>
      (\<not> list_ex unreleasedHeading (splitLines input) \<and>
       e = unreleasedPlaceholder (trim (preamble (splitLines input))))"
  proof (intro ballI impI)
    fix e
    assume e: "e \<in> set (entries (parseText input))" and u: "isUnreleased e"
    show "(\<exists>line\<in>set (splitLines input). unreleasedHeading line \<and> header e = trim line) \<or>
      (\<not> list_ex unreleasedHeading (splitLines input) \<and>
       e = unreleasedPlaceholder (trim (preamble (splitLines input))))"
    proof (cases "e \<in> set (loopEntries input)")
      case True
      then have "headerVersion e \<in> set (List.map_filter headingOf (splitLines input))"
        by (simp only: loopEntries_headings[symmetric]) simp
      then obtain line where l: "line \<in> set (splitLines input)"
        and ho: "headingOf line = Some (headerVersion e)"
        using map_filter_mem by fastforce
      have "unreleasedHeading line"
        using headingOf_unreleased[of line] ho u by (simp add: headerVersion_def isUnreleased_def)
      moreover have "header e = trim line"
        using ho by (auto simp: headingOf_def headerVersion_def split: option.splits)
      ultimately show ?thesis using l by blast
    next
      case False
      have "list_ex unreleasedHeading (splitLines input) \<Longrightarrow> False"
        using e False by (simp add: parsed_entries)
      moreover have "\<not> list_ex unreleasedHeading (splitLines input) \<Longrightarrow>
          e = unreleasedPlaceholder (trim (preamble (splitLines input)))"
        using e False by (simp add: parsed_entries)
      ultimately show ?thesis by blast
    qed
  qed
qed

lemma both_split:
  "splitLines (''## [Unreleased] v1.2.3'' @ [LF] @ ''- x'') = [''## [Unreleased] v1.2.3'', ''- x'']"
  by code_simp

lemma both_lines:
  "headingMatch ''## [Unreleased] v1.2.3'' = Some ''[Unreleased] v1.2.3''"
  "versionMatch (trim ''[Unreleased] v1.2.3'') = Some ''1.2.3''"
  "includesStr (toLowerCase (trim ''[Unreleased] v1.2.3'')) unreleased"
  "valid (trim ''1.2.3'') = Some ''1.2.3''"
  "trim ''## [Unreleased] v1.2.3'' = ''## [Unreleased] v1.2.3''"
  by code_simp+

lemma both_parsed:
  "entries (parseText (''## [Unreleased] v1.2.3'' @ [LF] @ ''- x'')) =
     [\<lparr>version = Some ''unreleased'', header = ''## [Unreleased]'', content = []\<rparr>,
      \<lparr>version = Some ''1.2.3'', header = ''## [Unreleased] v1.2.3'', content = ''- x''\<rparr>]"
  by code_simp

theorem heading_version_priority_witness:
  "''## [Unreleased] v1.2.3'' \<in> set (splitLines (''## [Unreleased] v1.2.3'' @ [LF] @ ''- x'')) \<and>
   headingMatch ''## [Unreleased] v1.2.3'' = Some ''[Unreleased] v1.2.3'' \<and>
   versionMatch (trim ''[Unreleased] v1.2.3'') = Some ''1.2.3'' \<and>
   includesStr (toLowerCase (trim ''[Unreleased] v1.2.3'')) unreleased \<and>
   entries (parseText (''## [Unreleased] v1.2.3'' @ [LF] @ ''- x'')) =
     [\<lparr>version = Some ''unreleased'', header = ''## [Unreleased]'', content = []\<rparr>,
      \<lparr>version = Some ''1.2.3'', header = ''## [Unreleased] v1.2.3'', content = ''- x''\<rparr>] \<and>
   (\<exists>e\<in>set (entries (parseText (''## [Unreleased] v1.2.3'' @ [LF] @ ''- x''))).
       header e = ''## [Unreleased] v1.2.3'' \<and> version e = Some ''1.2.3'' \<and> \<not> isUnreleased e)"
proof -
  let ?input = "''## [Unreleased] v1.2.3'' @ [LF] @ ''- x''"
  have l: "''## [Unreleased] v1.2.3'' \<in> set (splitLines ?input)"
    unfolding both_split by simp
  have h: "headingMatch ''## [Unreleased] v1.2.3'' = Some ''[Unreleased] v1.2.3'' \<and>
      versionMatch (trim ''[Unreleased] v1.2.3'') = Some ''1.2.3''"
    by (simp only: both_lines)
  have "\<exists>e\<in>set (entries (parseText ?input)).
       header e = trim ''## [Unreleased] v1.2.3'' \<and> version e = valid (trim ''1.2.3'') \<and>
       \<not> isUnreleased e"
    using heading_version_priority[of ?input] l h by blast
  then have r: "\<exists>e\<in>set (entries (parseText ?input)).
       header e = ''## [Unreleased] v1.2.3'' \<and> version e = Some ''1.2.3'' \<and> \<not> isUnreleased e"
    by (simp only: both_lines)
  show ?thesis
    by (intro conjI l both_lines(1) both_lines(2) both_lines(3) both_parsed r)
qed

section \<open>The writer and the entries it is given\<close>




























section \<open>Versions with a pre-release part, after the dot is removed\<close>

lemma trimStart_digit: "s \<noteq> [] \<and> isDigit (hd s) \<Longrightarrow> trimStart s = s"
  using digit_not_space by (cases s) (auto simp: trimStart_def)

lemma coreString_dash_last: "coreString u @ ''-'' \<noteq> [] \<and> \<not> isSpace (last (coreString u @ ''-''))"
  by (simp add: isSpace_def)

lemma parse_dash:
  "parseSemver (coreString u @ CHR ''-'' # r) =
     (case parseTail (CHR ''-'' # trimEnd r) of
        None \<Rightarrow> None
      | Some (pre, b) \<Rightarrow>
          Some \<lparr>major = major u, minor = minor u, patch = patch u, prerelease = pre, build = b\<rparr>)"
proof -
  let ?s = "coreString u @ CHR ''-'' # r"
  let ?t = "coreString u @ CHR ''-'' # trimEnd r"
  have hd: "?s \<noteq> [] \<and> isDigit (hd ?s)" using coreString_hd[of u] by simp
  have ts: "trimStart ?s = ?s" using hd by (rule trimStart_digit)
  have "trimEnd ((coreString u @ ''-'') @ r) = (coreString u @ ''-'') @ trimEnd r"
    using coreString_dash_last[of u] by (intro trimEnd_append) simp_all
  then have tr: "trim ?s = ?t" by (simp add: trim_def ts)
  have hd': "?t \<noteq> [] \<and> isDigit (hd ?t)" using coreString_hd[of u] by simp
  have sv: "stripV ?t = ?t" using hd' by (rule stripV_digit)
  have stop: "CHR ''-'' # trimEnd r = [] \<or> \<not> isCoreChar (hd (CHR ''-'' # trimEnd r))"
    by (simp add: isCoreChar_def)
  have tk: "takeWhile isCoreChar ?t = coreString u"
    using coreString_chars stop by (rule takeWhile_stop)
  have dr: "dropWhile isCoreChar ?t = CHR ''-'' # trimEnd r"
    using coreString_chars stop by (rule dropWhile_stop)
  have "parseSemver ?s =
     (case parseCore (takeWhile isCoreChar (stripV (trim ?s))) of
        None \<Rightarrow> None
      | Some (ma, mi, pa) \<Rightarrow>
          (case parseTail (dropWhile isCoreChar (stripV (trim ?s))) of
             None \<Rightarrow> None
           | Some (pre, b) \<Rightarrow>
               Some \<lparr>major = ma, minor = mi, patch = pa, prerelease = pre, build = b\<rparr>))"
    by (simp only: parseSemver_def Let_def)
  also have "\<dots> = (case parseTail (CHR ''-'' # trimEnd r) of
        None \<Rightarrow> None
      | Some (pre, b) \<Rightarrow>
          Some \<lparr>major = major u, minor = minor u, patch = patch u, prerelease = pre, build = b\<rparr>)"
    by (simp only: tr sv tk dr parseCore_coreString option.case prod.case)
  finally show ?thesis .
qed

lemma parse_dash_fields:
  assumes "parseSemver (coreString u @ CHR ''-'' # r) = Some x"
  shows "major x = major u \<and> minor x = minor u \<and> patch x = patch u"
  using assms unfolding parse_dash by (auto split: option.splits)

lemma removeDot_dash: "removeDot (coreString u @ CHR ''-'' # r) = coreString u @ CHR ''-'' # removeDot r"
proof -
  have "removeDot (coreString u @ CHR ''-'' # r) = coreString u @ removeDot (CHR ''-'' # r)"
    by (rule removeDot_pass) (simp add: isDigit_def)
  then show ?thesis by simp
qed

lemma bratNormalize_dash:
  assumes "prerelease u \<noteq> []"
  shows "\<exists>r. bratNormalize (format u) = coreString u @ CHR ''-'' # r"
  using assms by (simp add: bratNormalize_def format_alt removeDot_dash)

lemma mainGreater_compare:
  assumes "mainGreater u v" and "major x = major u \<and> minor x = minor u \<and> patch x = patch u"
  shows "compare x v = GT"
  using assms by (auto simp: compare_fields mainGreater_def)

lemma incPre_main:
  "major (incPre i u) = major u \<and> minor (incPre i u) = minor u \<and> patch (incPre i u) = patch u"
  by (simp add: incPre_def)

lemma incRelease_mainGreater:
  assumes "startsWithPre releaseType" and "releaseType \<noteq> Prerelease \<or> prerelease v = []"
  shows "mainGreater (incRelease releaseType identifier v) v"
proof (cases releaseType)
  case Premajor
  then show ?thesis by (simp add: mainGreater_def incPre_main)
next
  case Preminor
  then show ?thesis by (simp add: mainGreater_def incPre_main)
next
  case Prepatch
  then show ?thesis by (simp add: mainGreater_def incPre_main incPatch_def)
next
  case Prerelease
  then have "prerelease v = []" using assms(2) by simp
  then show ?thesis using Prerelease by (simp add: mainGreater_def incPre_main incPatch_def)
qed (use assms(1) in simp_all)

lemma incRelease_pre_nonempty:
  "startsWithPre releaseType \<Longrightarrow> prerelease (incRelease releaseType identifier v) \<noteq> []"
  by (cases releaseType) (simp_all add: incPre_fields)

text \<open>A pre-release keyword on a version whose pre-release part is not continued.\<close>

lemma fresh_pre_greater:
  assumes "startsWithPre releaseType" and "releaseType \<noteq> Prerelease \<or> prerelease v = []"
    and "parseSemver (bratNormalize (format (incRelease releaseType identifier v))) = Some x"
  shows "compare x v = GT"
proof -
  let ?u = "incRelease releaseType identifier v"
  obtain r where r: "bratNormalize (format ?u) = coreString ?u @ CHR ''-'' # r"
    using bratNormalize_dash[OF incRelease_pre_nonempty[OF assms(1)]] by blast
  have "major x = major ?u \<and> minor x = minor ?u \<and> patch x = patch ?u"
    using assms(3) unfolding r by (rule parse_dash_fields)
  with incRelease_mainGreater[OF assms(1,2)] show ?thesis by (rule mainGreater_compare)
qed

section \<open>The bump of a pre-release part\<close>

lemma incFirstNum_Some:
  "incFirstNum zs = Some r \<Longrightarrow>
     \<exists>as k bs. zs = as @ Num k # bs \<and> (\<forall>a\<in>set as. \<exists>s. a = Alnum s) \<and> r = as @ Num (k + 1) # bs"
proof (induction zs arbitrary: r rule: incFirstNum.induct)
  case 1
  then show ?case by simp
next
  case (2 n xs)
  then have "Num n # xs = [] @ Num n # xs \<and> (\<forall>a\<in>set []. \<exists>s. a = Alnum s) \<and> r = [] @ Num (n + 1) # xs"
    by simp
  then show ?case by blast
next
  case (3 s xs)
  then obtain r' where r': "incFirstNum xs = Some r'" and r: "r = Alnum s # r'" by auto
  obtain as k bs where "xs = as @ Num k # bs" "\<forall>a\<in>set as. \<exists>s. a = Alnum s"
      "r' = as @ Num (k + 1) # bs"
    using 3(1)[OF r'] by blast
  then have "Alnum s # xs = (Alnum s # as) @ Num k # bs \<and>
      (\<forall>a\<in>set (Alnum s # as). \<exists>s. a = Alnum s) \<and> r = (Alnum s # as) @ Num (k + 1) # bs"
    using r by simp
  then show ?case by blast
qed

lemma incFirstNum_None: "incFirstNum zs = None \<Longrightarrow> \<forall>a\<in>set zs. \<exists>s. a = Alnum s"
  by (induction zs rule: incFirstNum.induct) auto

lemma bumpPre_cases:
  assumes "pre \<noteq> []"
  shows "(\<exists>xs k ys. pre = xs @ Num k # ys \<and> (\<forall>a\<in>set ys. \<exists>s. a = Alnum s) \<and>
            bumpPre pre = xs @ Num (k + 1) # ys) \<or>
         ((\<forall>a\<in>set pre. \<exists>s. a = Alnum s) \<and> bumpPre pre = pre @ [Num 0])"
proof (cases "incFirstNum (rev pre)")
  case None
  then have "\<forall>a\<in>set pre. \<exists>s. a = Alnum s" using incFirstNum_None[OF None] by simp
  then show ?thesis using None assms by (simp add: bumpPre_def)
next
  case (Some r)
  obtain as k bs where z: "rev pre = as @ Num k # bs" and a: "\<forall>a\<in>set as. \<exists>s. a = Alnum s"
    and r: "r = as @ Num (k + 1) # bs"
    using incFirstNum_Some[OF Some] by blast
  have "pre = rev (as @ Num k # bs)" using z by (metis rev_rev_ident)
  then have p: "pre = rev bs @ Num k # rev as" by simp
  have b: "bumpPre pre = rev bs @ Num (k + 1) # rev as"
    using Some assms by (simp add: bumpPre_def r)
  have "\<forall>a\<in>set (rev as). \<exists>s. a = Alnum s" using a by simp
  then show ?thesis using p b by blast
qed

lemma comparePreLoop_prefix: "comparePreLoop (xs @ a) (xs @ b) = comparePreLoop a b"
  by (induction xs) auto

lemma comparePreLoop_longer: "comparePreLoop (xs @ [z]) xs = GT"
  by (induction xs) auto

lemma bumpPre_greater:
  assumes "pre \<noteq> []"
  shows "comparePreLoop (bumpPre pre) pre = GT"
proof -
  consider (inc) xs k ys where "pre = xs @ Num k # ys" "bumpPre pre = xs @ Num (k + 1) # ys"
    | (app) "bumpPre pre = pre @ [Num 0]"
    using bumpPre_cases[OF assms] by blast
  then show ?thesis
  proof cases
    case inc
    show ?thesis unfolding inc(2) by (subst inc(1)) (simp add: comparePreLoop_prefix compareNat_def)
  next
    case app
    show ?thesis unfolding app by (rule comparePreLoop_longer)
  qed
qed

lemma bumpPre_wf: "list_all wfIdent pre \<Longrightarrow> list_all wfIdent (bumpPre pre)"
proof (cases "pre = []")
  case True
  then show ?thesis by (simp add: bumpPre_def)
next
  case False
  assume wf: "list_all wfIdent pre"
  consider (inc) xs k ys where "pre = xs @ Num k # ys" "bumpPre pre = xs @ Num (k + 1) # ys"
    | (app) "bumpPre pre = pre @ [Num 0]"
    using bumpPre_cases[OF False] by blast
  then show ?thesis
  proof cases
    case inc
    then show ?thesis using wf by simp
  next
    case app
    then show ?thesis using wf by simp
  qed
qed

text \<open>
  When the bumped pre-release part ends in a number after another identifier, the part
  before the bump has the same identifiers up to that other one.
\<close>

lemma bumpPre_last_number:
  assumes "pre \<noteq> []" and "bumpPre pre = ids @ [x, Num m]"
  shows "\<exists>t. pre = ids @ x # t"
proof -
  consider (inc) xs k ys where "pre = xs @ Num k # ys" "\<forall>a\<in>set ys. \<exists>s. a = Alnum s"
      "bumpPre pre = xs @ Num (k + 1) # ys"
    | (app) "bumpPre pre = pre @ [Num 0]"
    using bumpPre_cases[OF assms(1)] by blast
  then show ?thesis
  proof cases
    case inc
    have "ys = []"
    proof (rule ccontr)
      assume ne: "ys \<noteq> []"
      then have l1: "last (xs @ Num (k + 1) # ys) = last ys" by simp
      have l2: "last (ids @ [x, Num m]) = Num m" by simp
      have "xs @ Num (k + 1) # ys = ids @ [x, Num m]" using inc(3) assms(2) by simp
      then have "last ys = Num m" using l1 l2 by (simp only:)
      moreover have "last ys \<in> set ys" using ne by simp
      ultimately show False using inc(2) by auto
    qed
    then have "xs @ [Num (k + 1)] = (ids @ [x]) @ [Num m]" using inc(3) assms(2) by simp
    then have "xs = ids @ [x]" by (simp only: append1_eq_conv)
    then have "pre = ids @ x # [Num k]" using inc(1) \<open>ys = []\<close> by simp
    then show ?thesis by blast
  next
    case app
    then have "pre @ [Num 0] = (ids @ [x]) @ [Num m]" using assms(2) by simp
    then have "pre = ids @ [x]" by (simp only: append1_eq_conv)
    then have "pre = ids @ x # []" by simp
    then show ?thesis by blast
  qed
qed

section \<open>A continued pre-release series, after the dot is removed\<close>

lemma removeDot_keep:
  "CHR ''.'' \<notin> set t \<Longrightarrow> \<not> list_all isDigit t \<Longrightarrow> removeDot (p @ t) = p @ t"
proof (induction p)
  case Nil
  then show ?case by (simp add: removeDot_no_dot)
next
  case (Cons c p)
  then have "\<not> isDigits (p @ t)" by (simp add: isDigits_def)
  with Cons show ?case by simp
qed

lemma joinWith_last:
  "joinWith sep (xs @ [y]) = (if xs = [] then [] else joinWith sep xs @ sep) @ y"
  by (induction sep xs rule: joinWith.induct) auto

lemma joinWith_merge:
  "joinWith sep (xs @ [y]) @ z = joinWith sep (xs @ [y @ z])"
  by (simp add: joinWith_last)

text \<open>Nothing is removed when the last identifier is not a number, or is the only one.\<close>

lemma normalize_unmerged:
  assumes "list_all wfIdent (prerelease u)" and "prerelease u = ids @ [y]"
    and "(\<exists>s. y = Alnum s) \<or> ids = []"
  shows "bratNormalize (format u) = format u"
proof -
  have nd: "CHR ''.'' \<notin> set (showIdent y)"
    using assms(1,2) by (intro showIdent_no_dot) simp
  show ?thesis
  proof (cases "ids = []")
    case True
    then have f: "format u = coreString u @ (CHR ''-'' # showIdent y)"
      using assms(2) by (simp add: format_alt)
    have "removeDot (coreString u @ (CHR ''-'' # showIdent y)) = coreString u @ (CHR ''-'' # showIdent y)"
      using nd by (intro removeDot_keep) (simp_all add: isDigit_def)
    then show ?thesis by (simp add: bratNormalize_def f)
  next
    case False
    then obtain s where y: "y = Alnum s" using assms(3) by blast
    have wf: "wfIdent (Alnum s)" using assms(1,2) y by simp
    have f: "format u =
        (coreString u @ CHR ''-'' # joinWith ''.'' (map showIdent ids) @ ''.'') @ s"
      using assms(2) False y by (simp add: format_alt joinWith_last)
    have "removeDot ((coreString u @ CHR ''-'' # joinWith ''.'' (map showIdent ids) @ ''.'') @ s) =
        (coreString u @ CHR ''-'' # joinWith ''.'' (map showIdent ids) @ ''.'') @ s"
      using nd wf y by (intro removeDot_keep) simp_all
    then show ?thesis unfolding bratNormalize_def f by simp
  qed
qed

lemma normalize_merged:
  assumes "list_all wfIdent (prerelease u)" and "prerelease u = ids @ [x, Num m]"
  shows "bratNormalize (format u) =
     coreString u @ CHR ''-'' # joinWith ''.'' (map showIdent ids @ [showIdent x @ showNat m])"
proof -
  have ne: "prerelease u \<noteq> []" using assms(2) by simp
  have p: "prereleaseOf (format u) \<noteq> None"
    using prereleaseOf_format[OF assms(1) ne] by simp
  have "removeDot (format u) =
      (coreString u @ ''-'' @ joinWith ''.'' (map showIdent (ids @ [x]))) @ showNat m"
    unfolding format_merge[OF assms(2)]
    by (rule removeDot_last[OF isDigits_showNat])
  moreover have "joinWith ''.'' (map showIdent (ids @ [x])) @ showNat m =
      joinWith ''.'' (map showIdent ids @ [showIdent x @ showNat m])"
    using joinWith_merge[of "''.''" "map showIdent ids" "showIdent x" "showNat m"] by simp
  ultimately show ?thesis using p by (simp add: bratNormalize_def)
qed

lemma trimEnd_no_space: "list_all (\<lambda>c. \<not> isSpace c) s \<Longrightarrow> trimEnd s = s"
proof -
  assume "list_all (\<lambda>c. \<not> isSpace c) s"
  then have "list_all (\<lambda>c. \<not> isSpace c) (rev s)" by (simp add: list_all_iff)
  then have "dropWhile isSpace (rev s) = rev s" by (cases "rev s") auto
  then show ?thesis by (simp add: trimEnd_def)
qed

lemma those_snoc:
  "those (map f xs) = Some ys \<Longrightarrow>
     those (map f (xs @ [z])) = map_option (\<lambda>m. ys @ [m]) (f z)"
proof (induction xs arbitrary: ys)
  case Nil
  then show ?case by (cases "f z") auto
next
  case (Cons a xs)
  then obtain b bs where b: "f a = Some b" and bs: "those (map f xs) = Some bs" and ys: "ys = b # bs"
    by (auto split: option.splits)
  show ?case using Cons.IH[OF bs] b ys by (cases "f z") auto
qed

lemma showNat_hd_zero: "(hd (showNat j) = CHR ''0'') = (j = 0)"
proof (cases "j < 10")
  case True
  then show ?thesis by (subst showNat.simps) (simp add: digitChar_zero)
next
  case False
  then have "length (showNat j) \<noteq> 1"
    by (subst showNat.simps) (simp add: showNat_nonempty)
  then have "hd (showNat j) \<noteq> CHR ''0''" using showNat_hd[of j] by simp
  then show ?thesis using False by simp
qed

lemma readNat_append: "readNat (a @ b) = readNat a * 10 ^ length b + readNat b"
proof (induction b rule: rev_induct)
  case Nil
  then show ?case by (simp add: readNat_def)
next
  case (snoc c b)
  have "readNat (a @ b @ [c]) = 10 * readNat (a @ b) + digitVal c"
    using readNat_snoc[of "a @ b" c] by simp
  then show ?case using snoc by (simp add: readNat_snoc algebra_simps)
qed

lemma readNat_merged: "j \<noteq> 0 \<Longrightarrow> j < readNat (showNat j @ showNat m)"
proof -
  assume j: "j \<noteq> 0"
  have "length (showNat m) \<noteq> 0" using showNat_nonempty[of m] by simp
  then obtain l where l: "length (showNat m) = Suc l" by (cases "length (showNat m)") auto
  have "readNat (showNat j @ showNat m) = j * 10 ^ Suc l + m"
    by (simp only: readNat_append readNat_showNat l)
  moreover have "(1::nat) < 10 ^ Suc l" by (rule one_less_power) simp_all
  then have "j * 1 < j * 10 ^ Suc l" using j by (intro mult_less_mono2) simp_all
  then have "j < j * 10 ^ Suc l" by (simp only: mult_1_right)
  ultimately show ?thesis by linarith
qed

text \<open>The identifier that two identifiers make when the second is a number and the dot goes.\<close>

lemma parseIdent_merged:
  assumes "wfIdent x"
  shows "parseIdent (showIdent x @ showNat m) =
     (case x of
        Alnum s \<Rightarrow> Some (Alnum (s @ showNat m))
      | Num j \<Rightarrow> if j = 0 then None else Some (Num (readNat (showNat j @ showNat m))))"
proof (cases x)
  case (Alnum s)
  then have "wfIdent (Alnum (s @ showNat m))" using assms wfIdent_append_digits by simp
  then show ?thesis using Alnum parseIdent_showIdent[of "Alnum (s @ showNat m)"] by simp
next
  case (Num j)
  let ?s = "showNat j @ showNat m"
  have d: "list_all isDigit ?s" by (simp add: showNat_digits)
  have i: "list_all isIdChar ?s" using d digit_idChar by (auto simp: list_all_iff)
  have ne: "?s \<noteq> []" by (simp add: showNat_nonempty)
  have len: "length ?s \<noteq> 1"
    using showNat_nonempty[of j] showNat_nonempty[of m]
    by (cases "showNat j"; cases "showNat m") auto
  have h: "hd ?s = hd (showNat j)" using showNat_nonempty[of j] by simp
  have k: "isNumericId ?s = (j \<noteq> 0)"
    using showNat_hd_zero[of j] by (simp only: isNumericId_def d ne len h) simp
  have pi: "parseIdent ?s = (if isNumericId ?s then Some (Num (readNat ?s)) else None)"
    by (simp only: parseIdent_def ne i d simp_thms if_True if_False)
  have "parseIdent ?s = (if j = 0 then None else Some (Num (readNat ?s)))"
    unfolding pi k by simp
  then show ?thesis unfolding Num by (simp only: showIdent.simps ident.case)
qed

lemma strLess_append: "\<not> strLess (s @ d) s"
  by (induction s) (cases d; simp)+

lemma merged_greater:
  assumes "wfIdent x" and "parseIdent (showIdent x @ showNat m) = Some mx"
  shows "mx \<noteq> x \<and> compareIdentifiers mx x = GT"
proof (cases x)
  case (Alnum s)
  have "parseIdent (showIdent x @ showNat m) = Some (Alnum (s @ showNat m))"
    using parseIdent_merged[OF assms(1), of m] Alnum by simp
  then have "mx = Alnum (s @ showNat m)" using assms(2) by simp
  then show ?thesis using Alnum showNat_nonempty[of m] by (simp add: strLess_append)
next
  case (Num j)
  have "parseIdent (showIdent x @ showNat m) =
      (if j = 0 then None else Some (Num (readNat (showNat j @ showNat m))))"
    using parseIdent_merged[OF assms(1), of m] Num by simp
  then have j: "j \<noteq> 0" and mx: "mx = Num (readNat (showNat j @ showNat m))"
    using assms(2) by (simp_all split: if_splits)
  show ?thesis using Num mx readNat_merged[OF j, of m] by (simp add: compareNat_def)
qed

lemma parse_merged:
  assumes "list_all wfIdent (prerelease u)" and "prerelease u = ids @ [x, Num m]"
  shows "parseSemver (bratNormalize (format u)) =
     (case parseIdent (showIdent x @ showNat m) of
        None \<Rightarrow> None
      | Some mx \<Rightarrow>
          Some \<lparr>major = major u, minor = minor u, patch = patch u,
                prerelease = ids @ [mx], build = []\<rparr>)"
proof -
  let ?strs = "map showIdent ids @ [showIdent x @ showNat m]"
  let ?r = "joinWith ''.'' ?strs"
  have wi: "list_all wfIdent ids" and wx: "wfIdent x" using assms by simp_all
  have cx: "list_all isIdChar (showIdent x @ showNat m)"
    using showIdent_chars[OF wx] showNat_digits[of m] digit_idChar by (auto simp: list_all_iff)
  have "list_all (list_all isIdChar) ?strs"
    using wi showIdent_chars cx by (auto simp: list_all_iff)
  then have "list_all (list_all isPreChar) ?strs"
    by (auto simp: list_all_iff isPreChar_def)
  then have pc: "list_all isPreChar ?r" by (intro joinWith_chars) (auto simp: isPreChar_def)
  have ns: "list_all (\<lambda>c. \<not> isSpace c) ?r" and np: "list_all notPlus ?r"
    using pc preChar_props by (auto simp: list_all_iff)
  have te: "trimEnd ?r = ?r" using ns by (rule trimEnd_no_space)
  have tk: "takeWhile notPlus ?r = ?r" and dr: "dropWhile notPlus ?r = []"
    using np by (simp_all add: list_all_iff)
  have nd: "list_all (\<lambda>s. CHR ''.'' \<notin> set s) ?strs"
    using wi showIdent_no_dot cx idChar_not_dot by (auto simp: list_all_iff)
  have sp: "splitOn (CHR ''.'') (joinWith [CHR ''.''] ?strs) = ?strs"
    using _ nd by (rule splitOn_join) simp
  have th: "those (map parseIdent ?strs) =
      map_option (\<lambda>mx. ids @ [mx]) (parseIdent (showIdent x @ showNat m))"
    using those_snoc[of parseIdent "map showIdent ids" ids "showIdent x @ showNat m"]
      those_map_parse[OF wi] by simp
  have pp: "parsePrerelease ?r =
      map_option (\<lambda>mx. ids @ [mx]) (parseIdent (showIdent x @ showNat m))"
    using sp th by (simp add: parsePrerelease_def)
  have pt: "parseTail (CHR ''-'' # ?r) =
      map_option (\<lambda>mx. (ids @ [mx], [])) (parseIdent (showIdent x @ showNat m))"
    by (cases "parseIdent (showIdent x @ showNat m)") (simp_all add: parseTail_def tk dr pp)
  show ?thesis
    unfolding normalize_merged[OF assms] parse_dash te pt
    by (cases "parseIdent (showIdent x @ showNat m)") simp_all
qed

lemma zeroMerged_snoc2: "zeroMerged (ids @ [x, Num m]) = (x = Num 0)"
  by (cases x) (simp_all add: zeroMerged_def)

lemma zeroMerged_unmerged: "(\<exists>s. y = Alnum s) \<or> ids = [] \<Longrightarrow> \<not> zeroMerged (ids @ [y])"
  by (cases y) (auto simp: zeroMerged_def split: list.splits ident.splits)

lemma parseIdent_merged_None:
  assumes "wfIdent x"
  shows "(parseIdent (showIdent x @ showNat m) = None) = (x = Num 0)"
  unfolding parseIdent_merged[OF assms] by (cases x) simp_all

text \<open>
  The version whose pre-release part is bumped and kept: after the dot is removed it is a
  semantic version unless a 0 and a number were joined, and then it is above the version
  before the bump.
\<close>

lemma continued_series:
  assumes "list_all wfIdent (prerelease v)" and "prerelease v \<noteq> []"
  shows "(parseSemver (bratNormalize (format (v\<lparr>prerelease := bumpPre (prerelease v)\<rparr>))) = None) =
           zeroMerged (bumpPre (prerelease v)) \<and>
         (\<forall>x. parseSemver (bratNormalize (format (v\<lparr>prerelease := bumpPre (prerelease v)\<rparr>))) = Some x
              \<longrightarrow> compare x v = GT)"
proof -
  let ?q = "bumpPre (prerelease v)"
  let ?u = "v\<lparr>prerelease := ?q\<rparr>"
  have wq: "list_all wfIdent (prerelease ?u)" using bumpPre_wf[OF assms(1)] by simp
  obtain ids' y where q: "?q = ids' @ [y]"
    using bumpPre_nonempty[of "prerelease v"] by (cases ?q rule: rev_cases) auto
  show ?thesis
  proof (cases "(\<exists>s. y = Alnum s) \<or> ids' = []")
    case True
    have pu: "prerelease ?u = ids' @ [y]" using q by simp
    have n: "bratNormalize (format ?u) = format ?u"
      using wq pu True by (rule normalize_unmerged)
    have p: "parseSemver (format ?u) =
        Some \<lparr>major = major v, minor = minor v, patch = patch v, prerelease = ?q, build = []\<rparr>"
      using parse_format[OF wq] by simp
    have z: "\<not> zeroMerged ?q" unfolding q using True by (rule zeroMerged_unmerged)
    have "compare \<lparr>major = major v, minor = minor v, patch = patch v, prerelease = ?q, build = []\<rparr> v = GT"
      using bumpPre_greater[OF assms(2)] bumpPre_nonempty[of "prerelease v"] assms(2)
      by (simp add: compare_fields comparePre_def)
    then show ?thesis unfolding n p using z by simp
  next
    case False
    then obtain m where y: "y = Num m" and ne: "ids' \<noteq> []" by (cases y) auto
    obtain ids x where i: "ids' = ids @ [x]" using ne by (cases ids' rule: rev_cases) auto
    have q2: "?q = ids @ [x, Num m]" using q y i by simp
    have pu: "prerelease ?u = ids @ [x, Num m]" using q2 by simp
    have wx: "wfIdent x" using wq pu by simp
    obtain t where pre: "prerelease v = ids @ x # t"
      using bumpPre_last_number[OF assms(2) q2] by blast
    have p: "parseSemver (bratNormalize (format ?u)) =
       (case parseIdent (showIdent x @ showNat m) of
          None \<Rightarrow> None
        | Some mx \<Rightarrow>
            Some \<lparr>major = major v, minor = minor v, patch = patch v,
                  prerelease = ids @ [mx], build = []\<rparr>)"
      unfolding parse_merged[OF wq pu]
      by (cases "parseIdent (showIdent x @ showNat m)") simp_all
    have a0: "(parseSemver (bratNormalize (format ?u)) = None) = (x = Num 0)"
      unfolding p using parseIdent_merged_None[OF wx, of m]
      by (cases "parseIdent (showIdent x @ showNat m)") simp_all
    have z: "zeroMerged ?q = (x = Num 0)" by (simp only: q2 zeroMerged_snoc2)
    have a: "(parseSemver (bratNormalize (format ?u)) = None) = zeroMerged ?q"
      using a0 z by (rule trans[OF _ sym])
    have b: "\<forall>x'. parseSemver (bratNormalize (format ?u)) = Some x' \<longrightarrow> compare x' v = GT"
    proof (intro allI impI)
      fix x'
      assume s: "parseSemver (bratNormalize (format ?u)) = Some x'"
      then obtain mx where mx: "parseIdent (showIdent x @ showNat m) = Some mx"
        and x': "x' = \<lparr>major = major v, minor = minor v, patch = patch v,
                  prerelease = ids @ [mx], build = []\<rparr>"
        unfolding p by (cases "parseIdent (showIdent x @ showNat m)") auto
      have g: "mx \<noteq> x \<and> compareIdentifiers mx x = GT" using wx mx by (rule merged_greater)
      have "comparePreLoop (ids @ [mx]) (ids @ x # t) = comparePreLoop [mx] (x # t)"
        by (rule comparePreLoop_prefix)
      also have "\<dots> = GT" using g by simp
      finally have "comparePreLoop (prerelease x') (prerelease v) = GT"
        by (simp add: x' pre)
      then show "compare x' v = GT"
        using assms(2) by (simp add: compare_fields comparePre_def x')
    qed
    show ?thesis using a b by (rule conjI)
  qed
qed

lemma gt_parsed:
  assumes "parseSemver current = Some v"
  shows "gt n current = map_option (\<lambda>x. compare x v = GT) (parseSemver n)"
  using assms by (simp add: gt_def split: option.splits)

lemma valid_parsed: "(valid n \<noteq> None) = (parseSemver n \<noteq> None)"
  by (simp add: valid_def)

text \<open>When \<open>inc\<close> continues the series.\<close>

lemma keepsSeries_cases:
  "keepsSeries None pre"
  "keepsSeries (Some []) pre"
  "keepsSeries (Some i) [Alnum i]"
  "keepsSeries (Some i) (Alnum i # Num k # rest)"
proof -
  show "keepsSeries None pre" by (simp add: keepsSeries_def applyIdentifier_def)
  show "keepsSeries (Some []) pre" by (simp add: keepsSeries_def applyIdentifier_def)
  show "keepsSeries (Some i) [Alnum i]"
    by (simp add: keepsSeries_def applyIdentifier_def bumpPre_def)
  let ?pre = "Alnum i # Num k # rest"
  have "\<exists>j r. bumpPre ?pre = Alnum i # Num j # r"
  proof -
    have ne: "?pre \<noteq> []" by simp
    consider (inc) xs j ys where "?pre = xs @ Num j # ys" "bumpPre ?pre = xs @ Num (j + 1) # ys"
      | (app) "\<forall>a\<in>set ?pre. \<exists>s. a = Alnum s"
      using bumpPre_cases[OF ne] by blast
    then show ?thesis
    proof cases
      case inc
      show ?thesis
      proof (cases xs)
        case Nil
        then show ?thesis using inc(1) by simp
      next
        case (Cons a xs')
        then have a: "a = Alnum i" and r: "Num k # rest = xs' @ Num j # ys" using inc(1) by simp_all
        show ?thesis
        proof (cases xs')
          case Nil
          then show ?thesis using inc(2) Cons a by simp
        next
          case (Cons b xs'')
          then have "b = Num k" using r by simp
          then show ?thesis using inc(2) \<open>xs = a # xs'\<close> Cons a by simp
        qed
      qed
    next
      case app
      then show ?thesis by simp
    qed
  qed
  then obtain j r where "bumpPre ?pre = Alnum i # Num j # r" by blast
  then show "keepsSeries (Some i) ?pre" by (simp add: keepsSeries_def applyIdentifier_def)
qed

text \<open>
  A new series: the keyword prerelease with an identifier that the pre-release part of
  the version does not continue.
\<close>

lemma applyIdentifier_cases:
  "applyIdentifier identifier q = q \<or>
   (\<exists>i. identifier = Some i \<and> i \<noteq> [] \<and> applyIdentifier identifier q = [Alnum i, Num 0])"
  by (auto simp: applyIdentifier_def split: option.splits)

lemma showNat_zero: "showNat 0 = ''0''"
  by code_simp

lemma new_series:
  assumes "list_all wfIdent (prerelease v)" and "prerelease v \<noteq> []"
    and "\<not> keepsSeries (Some i) (prerelease v)" and "wfIdent (Alnum i)"
  shows "bratNormalize (format (incPre (Some i) v)) = coreString v @ ''-'' @ i @ ''0'' \<and>
         parseSemver (bratNormalize (format (incPre (Some i) v))) =
           Some \<lparr>major = major v, minor = minor v, patch = patch v,
                 prerelease = [Alnum (i @ ''0'')], build = []\<rparr>"
proof -
  let ?u = "incPre (Some i) v"
  let ?m = "?u\<lparr>prerelease := [Alnum (i @ showNat 0)]\<rparr>"
  have "applyIdentifier (Some i) (bumpPre (prerelease v)) \<noteq> bumpPre (prerelease v)"
    using assms(3) by (simp add: keepsSeries_def)
  then have "applyIdentifier (Some i) (bumpPre (prerelease v)) = [Alnum i, Num 0]"
    using applyIdentifier_cases[of "Some i" "bumpPre (prerelease v)"] by auto
  then have pu: "prerelease ?u = [Alnum i, Num 0]" by (simp add: incPre_def)
  have n: "bratNormalize (format ?u) = format ?m"
    using pu assms(4) by (rule bratNormalize_identifier)
  have wm: "list_all wfIdent (prerelease ?m)"
    using wfIdent_append_digits[OF assms(4), of 0] by simp
  have f: "format ?m = coreString v @ ''-'' @ i @ ''0''"
    by (simp add: format_alt coreString_def incPre_def showNat_zero)
  have p: "parseSemver (format ?m) =
      Some \<lparr>major = major v, minor = minor v, patch = patch v,
            prerelease = [Alnum (i @ ''0'')], build = []\<rparr>"
    using parse_format[OF wm] by (simp add: incPre_def showNat_zero)
  show ?thesis unfolding n using f p by (rule conjI)
qed

lemma ownMerged_zero: "ownMerged i (Alnum (i @ ''0'') # r)"
  by (simp add: ownMerged_def isDigits_def isDigit_def)

lemma new_series_compare:
  assumes "pre \<noteq> []" and "\<not> ownMerged i pre"
  shows "comparePreLoop [Alnum (i @ ''0'')] pre = compareIdentifiers (Alnum (i @ ''0'')) (hd pre)"
proof (cases pre)
  case Nil
  then show ?thesis using assms(1) by simp
next
  case (Cons p ps)
  then have "p \<noteq> Alnum (i @ ''0'')" using assms(2) ownMerged_zero[of i ps] by auto
  then show ?thesis using Cons by auto
qed

text \<open>
  Claim C4 (as amended). From a valid current version, every bump keyword with every
  identifier resolves to a string, when the branch policy lets the run pass. Unless the
  keyword prerelease starts a new series on a current version that has a pre-release
  part, this string, whenever it is a semantic version, is strictly greater than the
  current version; and it is a semantic version in the cases of \<open>remainsVersion\<close>. The
  keyword prerelease continues the series of the pre-release part when no identifier is
  given or the part starts with the identifier, alone or followed by a number. When it
  starts a new series with an
  alphanumeric identifier, the string is the version with the one identifier
  \<open>identifier0\<close>, and it is strictly greater exactly when this identifier ranks above
  the first identifier of the current pre-release part; this is stated for a current
  pre-release part other than the identifier written together with a number.
\<close>

theorem bump_strictly_greater:
  assumes "parseSemver current = Some v"
    and "releaseTypeOf versionArg = Some releaseType"
    and "\<not> (isPreRelease releaseType current \<and> onDefaultBranch w)"
  shows "\<exists>n. resolveVersion current versionArg identifier w = Inr n \<and>
     ((releaseType = Prerelease \<and> prerelease v \<noteq> [] \<longrightarrow> keepsSeries identifier (prerelease v)) \<longrightarrow>
        (valid n \<noteq> None \<longrightarrow> gt n current = Some True) \<and>
        (remainsVersion releaseType identifier v \<longrightarrow> valid n \<noteq> None)) \<and>
     (\<forall>i. releaseType = Prerelease \<and> prerelease v \<noteq> [] \<and> identifier = Some i \<and>
          \<not> keepsSeries identifier (prerelease v) \<and> wfIdent (Alnum i) \<and>
          \<not> ownMerged i (prerelease v) \<longrightarrow>
        n = coreString v @ ''-'' @ i @ ''0'' \<and>
        gt n current =
          Some (compareIdentifiers (Alnum (i @ ''0'')) (hd (prerelease v)) = GT))"
proof -
  let ?u = "incRelease releaseType identifier v"
  let ?n = "bratNormalize (format ?u)"
  have r: "resolveVersion current versionArg identifier w = Inr ?n"
    using assms(1,2,3) by (auto simp: resolveVersion_def inc_def acceptVersion_format)
  have g: "gt ?n current = map_option (\<lambda>x. compare x v = GT) (parseSemver ?n)"
    using assms(1) by (rule gt_parsed)
  have wf: "list_all wfIdent (prerelease v)" using assms(1) by (rule parseSemver_wf)
  have A: "(releaseType = Prerelease \<and> prerelease v \<noteq> [] \<longrightarrow> keepsSeries identifier (prerelease v)) \<longrightarrow>
        (parseSemver ?n \<noteq> None \<longrightarrow> gt ?n current = Some True) \<and>
        (remainsVersion releaseType identifier v \<longrightarrow> parseSemver ?n \<noteq> None)"
  proof
    assume h: "releaseType = Prerelease \<and> prerelease v \<noteq> [] \<longrightarrow> keepsSeries identifier (prerelease v)"
    show "(parseSemver ?n \<noteq> None \<longrightarrow> gt ?n current = Some True) \<and>
        (remainsVersion releaseType identifier v \<longrightarrow> parseSemver ?n \<noteq> None)"
    proof (cases "releaseType = Prerelease \<and> prerelease v \<noteq> []")
      case True
      then have k: "keepsSeries identifier (prerelease v)" using h by simp
      have u: "?u = v\<lparr>prerelease := bumpPre (prerelease v)\<rparr>"
        using True k by (simp add: incPre_def keepsSeries_def)
      note c = continued_series[OF wf conjunct2[OF True], folded u]
      have 1: "parseSemver ?n \<noteq> None \<longrightarrow> gt ?n current = Some True"
        using c unfolding g by (cases "parseSemver ?n") simp_all
      have 2: "remainsVersion releaseType identifier v \<longrightarrow> parseSemver ?n \<noteq> None"
        using c True by (simp add: remainsVersion_def)
      show ?thesis using 1 2 by (rule conjI)
    next
      case False
      then have f: "releaseType \<noteq> Prerelease \<or> prerelease v = []" by blast
      have 2: "remainsVersion releaseType identifier v \<longrightarrow> parseSemver ?n \<noteq> None"
      proof
        assume "remainsVersion releaseType identifier v"
        then have i: "\<not> startsWithPre releaseType \<or> plainIdentifier identifier"
          using False by (simp add: remainsVersion_def)
        obtain n where "acceptVersion versionArg (Some (format ?u)) = Inr n"
          and "parseSemver n = Some (normalized ?u)"
          using accept_fresh[OF incRelease_fresh[OF f i]] by blast
        then show "parseSemver ?n \<noteq> None" by (simp add: acceptVersion_format)
      qed
      have 1: "parseSemver ?n \<noteq> None \<longrightarrow> gt ?n current = Some True"
      proof (cases "startsWithPre releaseType")
        case True
        show ?thesis
        proof
          assume "parseSemver ?n \<noteq> None"
          then obtain x where x: "parseSemver ?n = Some x" by blast
          have "compare x v = GT" using True f x by (rule fresh_pre_greater)
          then show "gt ?n current = Some True" unfolding g x by simp
        qed
      next
        case F: False
        then have i: "\<not> startsWithPre releaseType \<or> plainIdentifier identifier" by simp
        obtain n where "acceptVersion versionArg (Some (format ?u)) = Inr n"
          and "parseSemver n = Some (normalized ?u)"
          using accept_fresh[OF incRelease_fresh[OF f i]] by blast
        then have "parseSemver ?n = Some (normalized ?u)" by (simp add: acceptVersion_format)
        then show ?thesis unfolding g by (simp add: incRelease_greater[OF f])
      qed
      show ?thesis using 1 2 by (rule conjI)
    qed
  qed
  have B: "\<forall>i. releaseType = Prerelease \<and> prerelease v \<noteq> [] \<and> identifier = Some i \<and>
          \<not> keepsSeries identifier (prerelease v) \<and> wfIdent (Alnum i) \<and>
          \<not> ownMerged i (prerelease v) \<longrightarrow>
        ?n = coreString v @ ''-'' @ i @ ''0'' \<and>
        gt ?n current =
          Some (compareIdentifiers (Alnum (i @ ''0'')) (hd (prerelease v)) = GT)"
  proof (intro allI impI)
    fix i
    assume a: "releaseType = Prerelease \<and> prerelease v \<noteq> [] \<and> identifier = Some i \<and>
          \<not> keepsSeries identifier (prerelease v) \<and> wfIdent (Alnum i) \<and>
          \<not> ownMerged i (prerelease v)"
    then have ne: "prerelease v \<noteq> []" and k: "\<not> keepsSeries (Some i) (prerelease v)"
      and wi: "wfIdent (Alnum i)" and om: "\<not> ownMerged i (prerelease v)"
      by auto
    have u: "?u = incPre (Some i) v" using a by simp
    note s = new_series[OF wf ne k wi, folded u]
    have c: "comparePreLoop [Alnum (i @ ''0'')] (prerelease v) =
        compareIdentifiers (Alnum (i @ ''0'')) (hd (prerelease v))"
      using ne om by (rule new_series_compare)
    have "gt ?n current =
        Some (compareIdentifiers (Alnum (i @ ''0'')) (hd (prerelease v)) = GT)"
      unfolding g conjunct2[OF s] using ne c by (simp add: compare_fields comparePre_def)
    then show "?n = coreString v @ ''-'' @ i @ ''0'' \<and>
        gt ?n current =
          Some (compareIdentifiers (Alnum (i @ ''0'')) (hd (prerelease v)) = GT)"
      using conjunct1[OF s] by (rule conjI[rotated])
  qed
  show ?thesis
    using r A B unfolding valid_parsed by (intro exI[of _ ?n] conjI)
qed

lemma bump_example_parse:
  "parseSemver ''1.0.0-beta.3'' =
     Some \<lparr>major = 1, minor = 0, patch = 0, prerelease = [Alnum ''beta'', Num 3], build = []\<rparr>"
  by code_simp

lemma bump_example_keeps: "keepsSeries (Some ''beta'') [Alnum ''beta'', Num 3]"
  by code_simp

lemma bump_example_resolved:
  "resolveVersion ''1.0.0-beta.3'' ''prerelease'' (Some ''beta'') (cliTestWorld [] ''main'' ''develop'') =
     Inr ''1.0.0-beta4''"
  by code_simp

lemma bump_example_valid: "valid ''1.0.0-beta4'' = Some ''1.0.0-beta4''"
  by code_simp

lemma series_example_parse:
  "parseSemver ''1.0.0-alpha.1'' =
     Some \<lparr>major = 1, minor = 0, patch = 0, prerelease = [Alnum ''alpha'', Num 1], build = []\<rparr>"
  by code_simp

lemma series_example_new:
  "\<not> keepsSeries (Some ''beta'') [Alnum ''alpha'', Num 1]"
  "wfIdent (Alnum ''beta'')"
  "\<not> ownMerged ''beta'' [Alnum ''alpha'', Num 1]"
  by code_simp+

lemma series_example_resolved:
  "resolveVersion ''1.0.0-alpha.1'' ''prerelease'' (Some ''beta'') (cliTestWorld [] ''main'' ''develop'') =
     Inr ''1.0.0-beta0''"
  by code_simp

lemma series_example_rank:
  "(compareIdentifiers (Alnum (''beta'' @ ''0''))
      (hd (prerelease \<lparr>major = 1, minor = 0, patch = 0, prerelease = [Alnum ''alpha'', Num 1],
                       build = []\<rparr>)) = GT) = True"
  by code_simp

theorem bump_strictly_greater_witness:
  "parseSemver ''1.0.0-beta.3'' =
     Some \<lparr>major = 1, minor = 0, patch = 0, prerelease = [Alnum ''beta'', Num 3], build = []\<rparr> \<and>
   releaseTypeOf ''prerelease'' = Some Prerelease \<and>
   \<not> onDefaultBranch (cliTestWorld [] ''main'' ''develop'') \<and>
   keepsSeries (Some ''beta'') [Alnum ''beta'', Num 3] \<and>
   resolveVersion ''1.0.0-beta.3'' ''prerelease'' (Some ''beta'') (cliTestWorld [] ''main'' ''develop'') =
     Inr ''1.0.0-beta4'' \<and>
   valid ''1.0.0-beta4'' = Some ''1.0.0-beta4'' \<and>
   gt ''1.0.0-beta4'' ''1.0.0-beta.3'' = Some True \<and>
   parseSemver ''1.0.0-alpha.1'' =
     Some \<lparr>major = 1, minor = 0, patch = 0, prerelease = [Alnum ''alpha'', Num 1], build = []\<rparr> \<and>
   \<not> keepsSeries (Some ''beta'') [Alnum ''alpha'', Num 1] \<and>
   wfIdent (Alnum ''beta'') \<and>
   \<not> ownMerged ''beta'' [Alnum ''alpha'', Num 1] \<and>
   resolveVersion ''1.0.0-alpha.1'' ''prerelease'' (Some ''beta'') (cliTestWorld [] ''main'' ''develop'') =
     Inr ''1.0.0-beta0'' \<and>
   gt ''1.0.0-beta0'' ''1.0.0-alpha.1'' = Some True"
proof -
  let ?w = "cliTestWorld [] ''main'' ''develop''"
  let ?v = "\<lparr>major = 1, minor = 0, patch = 0, prerelease = [Alnum ''beta'', Num 3], build = []\<rparr>"
  let ?v2 = "\<lparr>major = 1, minor = 0, patch = 0, prerelease = [Alnum ''alpha'', Num 1], build = []\<rparr>"
  have k: "releaseTypeOf ''prerelease'' = Some Prerelease" by (simp add: releaseTypeOf_def)
  have b: "\<not> (isPreRelease Prerelease ''1.0.0-beta.3'' \<and> onDefaultBranch ?w)"
    using example_branches by simp
  have h: "Prerelease = Prerelease \<and> prerelease ?v \<noteq> [] \<longrightarrow>
      keepsSeries (Some ''beta'') (prerelease ?v)"
    using bump_example_keeps by simp
  note t = bump_strictly_greater[OF bump_example_parse k b, of "Some ''beta''",
      unfolded bump_example_resolved]
  have "valid ''1.0.0-beta4'' \<noteq> None \<longrightarrow> gt ''1.0.0-beta4'' ''1.0.0-beta.3'' = Some True"
    using t h by simp
  then have g: "gt ''1.0.0-beta4'' ''1.0.0-beta.3'' = Some True"
    unfolding bump_example_valid by simp
  have b2: "\<not> (isPreRelease Prerelease ''1.0.0-alpha.1'' \<and> onDefaultBranch ?w)"
    using example_branches by simp
  note t2 = bump_strictly_greater[OF series_example_parse k b2, of "Some ''beta''",
      unfolded series_example_resolved]
  have h2: "Prerelease = Prerelease \<and> prerelease ?v2 \<noteq> [] \<and> Some ''beta'' = Some ''beta'' \<and>
      \<not> keepsSeries (Some ''beta'') (prerelease ?v2) \<and> wfIdent (Alnum ''beta'') \<and>
      \<not> ownMerged ''beta'' (prerelease ?v2)"
    using series_example_new by simp
  have "gt ''1.0.0-beta0'' ''1.0.0-alpha.1'' =
      Some (compareIdentifiers (Alnum (''beta'' @ ''0'')) (hd (prerelease ?v2)) = GT)"
    using t2 h2 by blast
  then have g2: "gt ''1.0.0-beta0'' ''1.0.0-alpha.1'' = Some True"
    unfolding series_example_rank .
  show ?thesis
    by (intro conjI bump_example_parse k example_branches bump_example_keeps
        bump_example_resolved bump_example_valid g series_example_parse series_example_new
        series_example_resolved g2)
qed

text \<open>
  Bumps of a current version that has a pre-release part, a pre-release keyword with an
  identifier of two parts, and a new series that ranks above the current one.
\<close>

lemma continued_examples:
  "resolveVersion ''1.0.0-0'' ''prerelease'' None (cliTestWorld [] ''main'' ''develop'') =
     Inr ''1.0.0-1'' \<and>
   gt ''1.0.0-1'' ''1.0.0-0'' = Some True \<and>
   resolveVersion ''1.0.0-alpha'' ''prerelease'' None (cliTestWorld [] ''main'' ''develop'') =
     Inr ''1.0.0-alpha0'' \<and>
   gt ''1.0.0-alpha0'' ''1.0.0-alpha'' = Some True \<and>
   resolveVersion ''1.0.0-beta'' ''prerelease'' (Some ''beta'') (cliTestWorld [] ''main'' ''develop'') =
     Inr ''1.0.0-beta0'' \<and>
   gt ''1.0.0-beta0'' ''1.0.0-beta'' = Some True \<and>
   resolveVersion ''1.2.3'' ''premajor'' (Some ''beta.x'') (cliTestWorld [] ''main'' ''develop'') =
     Inr ''2.0.0-beta.x0'' \<and>
   gt ''2.0.0-beta.x0'' ''1.2.3'' = Some True \<and>
   resolveVersion ''1.0.0-alpha.1'' ''prerelease'' (Some ''beta'') (cliTestWorld [] ''main'' ''develop'') =
     Inr ''1.0.0-beta0'' \<and>
   gt ''1.0.0-beta0'' ''1.0.0-alpha.1'' = Some True"
  by code_simp

theorem bump_not_greater_counterexample:
  "resolveVersion ''1.0.0-rc.1'' ''prerelease'' (Some ''beta'') (cliTestWorld [] ''main'' ''develop'') =
     Inr ''1.0.0-beta0'' \<and>
   gt ''1.0.0-beta0'' ''1.0.0-rc.1'' = Some False \<and>
   gt ''1.0.0-rc.1'' ''1.0.0-beta0'' = Some True \<and>
   resolveVersion ''1.0.1-beta0'' ''prerelease'' (Some ''beta'') (cliTestWorld [] ''main'' ''develop'') =
     Inr ''1.0.1-beta0'' \<and>
   gt ''1.0.1-beta0'' ''1.0.1-beta0'' = Some False \<and>
   resolveVersion ''1.0.0-0.3'' ''prerelease'' None (cliTestWorld [] ''main'' ''develop'') =
     Inr ''1.0.0-04'' \<and>
   valid ''1.0.0-04'' = None \<and>
   gt ''1.0.0-04'' ''1.0.0-0.3'' = None"
  by code_simp


end
